theory Spec2Isabelle
  imports Complex_Main "HOL-Library.Word"
begin

section \<open>Image statistics of DIPlib (src/math/statistics.cpp)\<close>

text \<open>
  The statistics functions are line filters driven by the scan framework. Each filter
  class keeps one slot of state per thread; \<open>Filter\<close> processes one image line and
  folds its local result into the slot of \<open>params.thread\<close>; \<open>GetResult\<close> merges
  the slots in index order.

  A buffer of \<open>ScanLineFilterParameters\<close> is represented by the sequence of samples
  that the pointer walk \<open>in += stride\<close> visits: element \<open>ii\<close> of the list is the
  sample read in loop iteration \<open>ii\<close>. A mask image or mask buffer is written
  \<open>msk\<close>. The template parameter \<open>TPI\<close> is the type variable of the sample lists.
  \<open>dip::uint\<close> counters are 64-bit words; coordinates and thread indices, which never
  leave the image or the thread table, are naturals.
\<close>

subsection \<open>Data model\<close>

datatype error =
    IMAGE_NOT_FORGED
  | IMAGE_NOT_SCALAR
  | DIMENSIONALITY_NOT_SUPPORTED
  | FRAMEWORK_ERROR string

text \<open>
  The part of \<open>dip::Image\<close> that the statistics functions look at: whether it is
  forged, its number of tensor elements, its sizes and its samples by coordinate.
\<close>

record 'a Image =
  forged :: bool
  tensorElements :: nat
  sizes :: "nat list"
  pixels :: "nat list \<Rightarrow> 'a"

definition IsForged :: "'a Image \<Rightarrow> bool" where
  "IsForged img = forged img"

definition IsScalar :: "'a Image \<Rightarrow> bool" where
  "IsScalar img = (tensorElements img = 1)"

definition Dimensionality :: "'a Image \<Rightarrow> nat" where
  "Dimensionality img = length (sizes img)"

text \<open>
  \<open>Framework::ScanLineFilterParameters\<close>: \<open>inBuffer\<close> is \<open>params.inBuffer[0]\<close>,
  \<open>maskBuffer\<close> is \<open>params.inBuffer[1]\<close> when \<open>params.inBuffer.size() > 1\<close>.
\<close>

record 'a ScanLineFilterParameters =
  inBuffer :: "'a list"
  maskBuffer :: "bool list option"
  bufferLength :: nat
  dimension :: nat
  position :: "nat list"
  thread :: nat

text \<open>
  What the scan framework guarantees for every call of \<open>Filter\<close>: each buffer holds
  \<open>bufferLength\<close> samples, the thread index is below the number of threads and the
  scan dimension is one of the \<open>nD\<close> coordinates of \<open>position\<close>.
\<close>

definition wf_params :: "nat \<Rightarrow> nat \<Rightarrow> 'a ScanLineFilterParameters \<Rightarrow> bool" where
  "wf_params threads nD p =
     (length (inBuffer p) = bufferLength p \<and>
      (case maskBuffer p of None \<Rightarrow> True | Some m \<Rightarrow> length m = bufferLength p) \<and>
      thread p < threads \<and> length (position p) = nD \<and> dimension p < nD)"

text \<open>\<open>std::vector::resize( n, v )\<close>.\<close>

definition resize :: "nat \<Rightarrow> 'a \<Rightarrow> 'a list \<Rightarrow> 'a list" where
  "resize n v xs = take n xs @ replicate (n - length xs) v"

text \<open>
  The scan framework (\<open>Framework::ScanSingleInput\<close>, \<open>Framework::Scan\<close>) is not part
  of the sources. It enters every operation as a parameter \<open>scan\<close>: given the images
  it either throws or fixes the number of threads and the sequence of \<open>Filter\<close> calls
  it makes. Slots of different threads are disjoint, so a parallel run equals the
  sequential run of some such sequence.
\<close>

type_synonym ('i, 'a) scan_driver =
  "'i Image \<Rightarrow> bool Image \<Rightarrow> error + (nat \<times> 'a ScanLineFilterParameters list)"

subsection \<open>Count\<close>

type_synonym dip_uint = "64 word"

text \<open>The member \<open>counts_\<close> is the field \<open>counts\<close>.\<close>

record dip__Count =
  counts :: "dip_uint list"

definition dip__Count_new :: dip__Count where
  "dip__Count_new = \<lparr> counts = [] \<rparr>"

definition dip__Count_Filter :: "bool ScanLineFilterParameters \<Rightarrow> dip__Count \<Rightarrow> dip__Count" where
  "dip__Count_Filter params s =
     (let inb = inBuffer params;
          count = (case maskBuffer params of
              Some msk \<Rightarrow>
                fold (\<lambda>ii count. if msk ! ii \<and> inb ! ii then count + 1 else count)
                     [0..<bufferLength params] (0 :: dip_uint)
            | None \<Rightarrow>
                fold (\<lambda>ii count. if inb ! ii then count + 1 else count)
                     [0..<bufferLength params] (0 :: dip_uint))
      in s\<lparr> counts := (counts s)[thread params := counts s ! thread params + count] \<rparr>)"

definition dip__Count_SetNumberOfThreads :: "nat \<Rightarrow> dip__Count \<Rightarrow> dip__Count" where
  "dip__Count_SetNumberOfThreads threads s = s\<lparr> counts := resize threads 0 (counts s) \<rparr>"

definition dip__Count_GetResult :: "dip__Count \<Rightarrow> dip_uint" where
  "dip__Count_GetResult s =
     fold (\<lambda>ii out. out + counts s ! ii) [1..<length (counts s)] (counts s ! 0)"

definition Count :: "('i, bool) scan_driver \<Rightarrow> 'i Image \<Rightarrow> bool Image \<Rightarrow> error + dip_uint" where
  "Count scan img msk =
     (if \<not> IsForged img then Inl IMAGE_NOT_FORGED
      else if \<not> IsScalar img then Inl IMAGE_NOT_SCALAR
      else case scan img msk of
             Inl e \<Rightarrow> Inl e
           | Inr (threads, lines) \<Rightarrow>
               Inr (dip__Count_GetResult
                      (fold dip__Count_Filter lines
                         (dip__Count_SetNumberOfThreads threads dip__Count_new))))"

subsection \<open>MaximumPixel and MinimumPixel\<close>

text \<open>
  \<open>dip__MaxPixel< TPI >\<close> and \<open>dip__MinPixel< TPI >\<close> share their members: \<open>coord_\<close>
  is \<open>pix_coord\<close>, \<open>value_\<close> is \<open>pix_value\<close> and \<open>first_\<close> is \<open>pix_first\<close>.
  \<open>std::numeric_limits< TPI >::lowest()\<close> and \<open>max()\<close> are the parameters
  \<open>lowest\<close> and \<open>highest\<close>. A default-constructed \<open>UnsignedArray\<close> is empty,
  \<open>UnsignedArray coord( n )\<close> holds \<open>n\<close> zeros.
\<close>

record 'a dip__MaxMinPixel =
  pix_coord :: "nat list list"
  pix_value :: "'a list"
  pix_first :: bool

definition dip__MaxMinPixel_new :: "bool \<Rightarrow> 'a dip__MaxMinPixel" where
  "dip__MaxMinPixel_new first = \<lparr> pix_coord = [], pix_value = [], pix_first = first \<rparr>"

definition dip__MaxPixel_Filter ::
  "'a::linorder \<Rightarrow> 'a ScanLineFilterParameters \<Rightarrow> 'a dip__MaxMinPixel \<Rightarrow> 'a dip__MaxMinPixel" where
  "dip__MaxPixel_Filter lowest params s =
     (let inb = inBuffer params;
          here = (\<lambda>ii. (position params)[dimension params := position params ! dimension params + ii]);
          coord0 = replicate (length (position params)) (0 :: nat);
          value0 = lowest;
          (value, coord) = (case maskBuffer params of
              Some msk \<Rightarrow>
                (if pix_first s then
                   fold (\<lambda>ii (value, coord).
                           if msk ! ii \<and> inb ! ii > value then (inb ! ii, here ii) else (value, coord))
                        [0..<bufferLength params] (value0, coord0)
                 else
                   fold (\<lambda>ii (value, coord).
                           if msk ! ii \<and> inb ! ii \<ge> value then (inb ! ii, here ii) else (value, coord))
                        [0..<bufferLength params] (value0, coord0))
            | None \<Rightarrow>
                (if pix_first s then
                   fold (\<lambda>ii (value, coord).
                           if inb ! ii > value then (inb ! ii, here ii) else (value, coord))
                        [0..<bufferLength params] (value0, coord0)
                 else
                   fold (\<lambda>ii (value, coord).
                           if inb ! ii \<ge> value then (inb ! ii, here ii) else (value, coord))
                        [0..<bufferLength params] (value0, coord0)))
      in if pix_first s then
           (if value > pix_value s ! thread params
            then s\<lparr> pix_value := (pix_value s)[thread params := value],
                    pix_coord := (pix_coord s)[thread params := coord] \<rparr>
            else s)
         else
           (if value \<ge> pix_value s ! thread params
            then s\<lparr> pix_value := (pix_value s)[thread params := value],
                    pix_coord := (pix_coord s)[thread params := coord] \<rparr>
            else s))"

definition dip__MaxPixel_SetNumberOfThreads ::
  "'a \<Rightarrow> nat \<Rightarrow> 'a dip__MaxMinPixel \<Rightarrow> 'a dip__MaxMinPixel" where
  "dip__MaxPixel_SetNumberOfThreads lowest threads s =
     s\<lparr> pix_coord := resize threads [] (pix_coord s),
        pix_value := resize threads lowest (pix_value s) \<rparr>"

definition dip__MaxPixel_GetResult :: "'a::linorder dip__MaxMinPixel \<Rightarrow> nat list" where
  "dip__MaxPixel_GetResult s =
     (let index = fold (\<lambda>ii index.
                          if (if pix_first s then pix_value s ! ii > pix_value s ! index
                              else pix_value s ! ii \<ge> pix_value s ! index)
                          then ii else index)
                       [1..<length (pix_coord s)] 0
      in pix_coord s ! index)"

definition dip__MinPixel_Filter ::
  "'a::linorder \<Rightarrow> 'a ScanLineFilterParameters \<Rightarrow> 'a dip__MaxMinPixel \<Rightarrow> 'a dip__MaxMinPixel" where
  "dip__MinPixel_Filter highest params s =
     (let inb = inBuffer params;
          here = (\<lambda>ii. (position params)[dimension params := position params ! dimension params + ii]);
          coord0 = replicate (length (position params)) (0 :: nat);
          value0 = highest;
          (value, coord) = (case maskBuffer params of
              Some msk \<Rightarrow>
                (if pix_first s then
                   fold (\<lambda>ii (value, coord).
                           if msk ! ii \<and> inb ! ii < value then (inb ! ii, here ii) else (value, coord))
                        [0..<bufferLength params] (value0, coord0)
                 else
                   fold (\<lambda>ii (value, coord).
                           if msk ! ii \<and> inb ! ii \<le> value then (inb ! ii, here ii) else (value, coord))
                        [0..<bufferLength params] (value0, coord0))
            | None \<Rightarrow>
                (if pix_first s then
                   fold (\<lambda>ii (value, coord).
                           if inb ! ii < value then (inb ! ii, here ii) else (value, coord))
                        [0..<bufferLength params] (value0, coord0)
                 else
                   fold (\<lambda>ii (value, coord).
                           if inb ! ii \<le> value then (inb ! ii, here ii) else (value, coord))
                        [0..<bufferLength params] (value0, coord0)))
      in if pix_first s then
           (if value < pix_value s ! thread params
            then s\<lparr> pix_value := (pix_value s)[thread params := value],
                    pix_coord := (pix_coord s)[thread params := coord] \<rparr>
            else s)
         else
           (if value \<le> pix_value s ! thread params
            then s\<lparr> pix_value := (pix_value s)[thread params := value],
                    pix_coord := (pix_coord s)[thread params := coord] \<rparr>
            else s))"

definition dip__MinPixel_SetNumberOfThreads ::
  "'a \<Rightarrow> nat \<Rightarrow> 'a dip__MaxMinPixel \<Rightarrow> 'a dip__MaxMinPixel" where
  "dip__MinPixel_SetNumberOfThreads highest threads s =
     s\<lparr> pix_coord := resize threads [] (pix_coord s),
        pix_value := resize threads highest (pix_value s) \<rparr>"

definition dip__MinPixel_GetResult :: "'a::linorder dip__MaxMinPixel \<Rightarrow> nat list" where
  "dip__MinPixel_GetResult s =
     (let index = fold (\<lambda>ii index.
                          if (if pix_first s then pix_value s ! ii < pix_value s ! index
                              else pix_value s ! ii \<le> pix_value s ! index)
                          then ii else index)
                       [1..<length (pix_coord s)] 0
      in pix_coord s ! index)"

text \<open>
  The buffer type \<open>DataType::SuggestReal( in.DataType() )\<close> and the dispatch
  \<open>DIP_OVL_NEW_REAL\<close> choose \<open>TPI\<close>; here they are the choice of the sample type
  \<open>'a\<close> and of its \<open>lowest\<close> or \<open>highest\<close>.
\<close>

definition MaximumPixel ::
  "('i, 'a::linorder) scan_driver \<Rightarrow> 'a \<Rightarrow> 'i Image \<Rightarrow> bool Image \<Rightarrow> string \<Rightarrow> error + nat list" where
  "MaximumPixel scan lowest img msk positionFlag =
     (if \<not> IsForged img then Inl IMAGE_NOT_FORGED
      else if \<not> IsScalar img then Inl IMAGE_NOT_SCALAR
      else let first = (positionFlag = ''first'')
           in case scan img msk of
                Inl e \<Rightarrow> Inl e
              | Inr (threads, lines) \<Rightarrow>
                  Inr (dip__MaxPixel_GetResult
                         (fold (dip__MaxPixel_Filter lowest) lines
                            (dip__MaxPixel_SetNumberOfThreads lowest threads
                               (dip__MaxMinPixel_new first)))))"

definition MinimumPixel ::
  "('i, 'a::linorder) scan_driver \<Rightarrow> 'a \<Rightarrow> 'i Image \<Rightarrow> bool Image \<Rightarrow> string \<Rightarrow> error + nat list" where
  "MinimumPixel scan highest img msk positionFlag =
     (if \<not> IsForged img then Inl IMAGE_NOT_FORGED
      else if \<not> IsScalar img then Inl IMAGE_NOT_SCALAR
      else let first = (positionFlag = ''first'')
           in case scan img msk of
                Inl e \<Rightarrow> Inl e
              | Inr (threads, lines) \<Rightarrow>
                  Inr (dip__MinPixel_GetResult
                         (fold (dip__MinPixel_Filter highest) lines
                            (dip__MinPixel_SetNumberOfThreads highest threads
                               (dip__MaxMinPixel_new first)))))"


subsection \<open>CumulativeSum\<close>

text \<open>
  \<open>Framework::SeparableLineFilterParameters\<close>: the input line and the output line, each
  of \<open>sep_length\<close> samples. \<open>CumSumFilter< TPI >\<close> has no members; its sample type is a
  floating-point or complex type, of which the filter uses \<open>0\<close> and \<open>+\<close> only.
\<close>

record 'a SeparableLineFilterParameters =
  sep_inBuffer :: "'a list"
  sep_outBuffer :: "'a list"
  sep_length :: nat

definition CumSumFilter_Filter :: "'a::{zero,plus} SeparableLineFilterParameters \<Rightarrow> 'a list" where
  "CumSumFilter_Filter params =
     snd (fold (\<lambda>ii (sum, out).
                  let sum = sum + sep_inBuffer params ! ii
                  in (sum, out[ii := sum]))
               [0..<sep_length params] (0, sep_outBuffer params))"

text \<open>
  \<open>Select\<close> and \<open>Framework::Separable\<close> are called by \<open>CumulativeSum\<close> but are
  not part of the sources; they are its parameters \<open>select\<close> and \<open>separable\<close>. Each
  takes the output image as it stands and returns it as it leaves it, with the
  exception it throws, if any. \<open>Image( 0, dataType )\<close> is \<open>zero_image\<close>.
\<close>

definition zero_image :: "'a::zero Image" where
  "zero_image = \<lparr> forged = True, tensorElements = 1, sizes = [], pixels = (\<lambda>c. 0) \<rparr>"

type_synonym 'a select_fn =
  "'a Image \<Rightarrow> 'a Image \<Rightarrow> bool Image \<Rightarrow> 'a Image \<Rightarrow> error option \<times> 'a Image"

type_synonym 'a separable_fn =
  "'a Image \<Rightarrow> 'a Image \<Rightarrow> bool list \<Rightarrow> ('a SeparableLineFilterParameters \<Rightarrow> 'a list)
     \<Rightarrow> error option \<times> 'a Image"

definition CumulativeSum ::
  "'a::{zero,plus} select_fn \<Rightarrow> 'a separable_fn \<Rightarrow> 'a Image \<Rightarrow> bool Image \<Rightarrow> 'a Image \<Rightarrow> bool list
     \<Rightarrow> error option \<times> 'a Image" where
  "CumulativeSum select separable img msk out process =
     (if \<not> IsForged img then (Some IMAGE_NOT_FORGED, out)
      else if Dimensionality img < 1 then (Some DIMENSIONALITY_NOT_SUPPORTED, out)
      else if IsForged msk then
        (case select img zero_image msk out of
           (Some e, out1) \<Rightarrow> (Some e, out1)
         | (None, out1) \<Rightarrow> separable out1 out1 process CumSumFilter_Filter)
      else separable img out process CumSumFilter_Filter)"

text \<open>
  Modelled from the spec: \<open>Select\<close> is missing from the sources. The selection step
  replaces the positions where the mask is false by the sample of the second image, a
  0-dimensional image that is expanded to every position; where the mask is true the
  sample of the first image stays. Masks of the size of the image only.
\<close>

definition Select :: "'a select_fn" where
  "Select in1 in2 msk out =
     (None, in1\<lparr> pixels := (\<lambda>c. if pixels msk c then pixels in1 c else pixels in2 []) \<rparr>)"

text \<open>
  Modelled from the spec: \<open>Framework::Separable\<close> is missing from the sources. For
  each dimension flagged in \<open>process\<close>, in increasing order, it runs one full pass of
  the line filter along that dimension, with the coordinates along the other
  dimensions held fixed per call; each pass reads the result of the one before.
\<close>

definition in_image :: "'a Image \<Rightarrow> nat list \<Rightarrow> bool" where
  "in_image img c = list_all2 (\<lambda>ci n. ci < n) c (sizes img)"

definition image_line :: "'a Image \<Rightarrow> nat \<Rightarrow> nat list \<Rightarrow> 'a list" where
  "image_line img d c = map (\<lambda>i. pixels img (c[d := i])) [0..<sizes img ! d]"

definition Separable_pass ::
  "('a SeparableLineFilterParameters \<Rightarrow> 'a list) \<Rightarrow> nat \<Rightarrow> 'a Image \<Rightarrow> 'a Image" where
  "Separable_pass lineFilter d img =
     img\<lparr> pixels := (\<lambda>c. if in_image img c
                          then lineFilter \<lparr> sep_inBuffer = image_line img d c,
                                           sep_outBuffer = image_line img d c,
                                           sep_length = sizes img ! d \<rparr> ! (c ! d)
                          else pixels img c) \<rparr>"

definition Separable :: "'a separable_fn" where
  "Separable img out process lineFilter =
     (None, fold (Separable_pass lineFilter)
                 (filter (\<lambda>d. process ! d) [0..<Dimensionality img]) img)"

subsection \<open>MaximumAndMinimum\<close>

text \<open>
  Modelled from the spec: the class \<open>MinMaxAccumulator\<close> is missing from the sources.
  It tracks a running minimum and a running maximum; \<open>Push\<close> takes one sample or two
  samples; the merge \<open>+=\<close> is the minimum of the minima and the maximum of the maxima.
  Samples are \<open>dfloat\<close> values, of which only the order is used; the value of a
  default-constructed accumulator is the parameter \<open>init\<close> of the filter.
\<close>

record 'a MinMaxAccumulator =
  acc_min :: 'a
  acc_max :: 'a

definition MinMax_Push :: "'a::linorder \<Rightarrow> 'a MinMaxAccumulator \<Rightarrow> 'a MinMaxAccumulator" where
  "MinMax_Push x acc = \<lparr> acc_min = min (acc_min acc) x, acc_max = max (acc_max acc) x \<rparr>"

definition MinMax_Push2 :: "'a::linorder \<Rightarrow> 'a \<Rightarrow> 'a MinMaxAccumulator \<Rightarrow> 'a MinMaxAccumulator" where
  "MinMax_Push2 x y acc =
     \<lparr> acc_min = min (acc_min acc) (min x y), acc_max = max (acc_max acc) (max x y) \<rparr>"

definition MinMax_add :: "'a::linorder MinMaxAccumulator \<Rightarrow> 'a MinMaxAccumulator \<Rightarrow> 'a MinMaxAccumulator" where
  "MinMax_add acc other =
     \<lparr> acc_min = min (acc_min acc) (acc_min other), acc_max = max (acc_max acc) (acc_max other) \<rparr>"

text \<open>
  The unmasked loop of \<open>dip__MaximumAndMinimum::Filter\<close>,
  \<open>for( ; ii < bufferLength - 1; ii += 2 )\<close>. The bound is computed in \<open>dip::uint\<close>:
  for \<open>bufferLength = 0\<close> it wraps around to \<open>2^64 - 1\<close>. A read past the end of the
  buffer is undefined behaviour, the value \<open>None\<close>.
\<close>

definition uint_pred :: "nat \<Rightarrow> nat" where
  "uint_pred n = (if n = 0 then 2 ^ 64 - 1 else n - 1)"

function MaximumAndMinimum_pairs ::
  "'a::linorder list \<Rightarrow> nat \<Rightarrow> nat \<Rightarrow> 'a MinMaxAccumulator \<Rightarrow> (nat \<times> 'a MinMaxAccumulator) option" where
  "MaximumAndMinimum_pairs inb bound ii vars =
     (if ii < bound then
        (if ii + 1 < length inb
         then MaximumAndMinimum_pairs inb bound (ii + 2) (MinMax_Push2 (inb ! ii) (inb ! (ii + 1)) vars)
         else None)
      else Some (ii, vars))"
  by pat_completeness auto
termination
  by (relation "measure (\<lambda>(inb, bound, ii, vars). bound - ii)") auto

text \<open>The member \<open>accArray_\<close> is the field \<open>mm_accArray\<close>.\<close>

record 'a dip__MaximumAndMinimum =
  mm_accArray :: "'a MinMaxAccumulator list"

definition dip__MaximumAndMinimum_Filter ::
  "'a::linorder MinMaxAccumulator \<Rightarrow> 'a ScanLineFilterParameters \<Rightarrow> 'a dip__MaximumAndMinimum
     \<Rightarrow> 'a dip__MaximumAndMinimum option" where
  "dip__MaximumAndMinimum_Filter init params s =
     (let inb = inBuffer params;
          vars = (case maskBuffer params of
              Some msk \<Rightarrow>
                Some (fold (\<lambda>ii vars. if msk ! ii then MinMax_Push (inb ! ii) vars else vars)
                           [0..<bufferLength params] init)
            | None \<Rightarrow>
                (case MaximumAndMinimum_pairs inb (uint_pred (bufferLength params)) 0 init of
                   None \<Rightarrow> None
                 | Some (ii, vars) \<Rightarrow>
                     if ii < bufferLength params
                     then (if ii < length inb then Some (MinMax_Push (inb ! ii) vars) else None)
                     else Some vars))
      in case vars of
           None \<Rightarrow> None
         | Some vars \<Rightarrow>
             Some (s\<lparr> mm_accArray := (mm_accArray s)
                         [thread params := MinMax_add (mm_accArray s ! thread params) vars] \<rparr>))"

definition dip__MaximumAndMinimum_SetNumberOfThreads ::
  "'a MinMaxAccumulator \<Rightarrow> nat \<Rightarrow> 'a dip__MaximumAndMinimum \<Rightarrow> 'a dip__MaximumAndMinimum" where
  "dip__MaximumAndMinimum_SetNumberOfThreads init threads s =
     s\<lparr> mm_accArray := resize threads init (mm_accArray s) \<rparr>"

definition dip__MaximumAndMinimum_GetResult :: "'a::linorder dip__MaximumAndMinimum \<Rightarrow> 'a MinMaxAccumulator" where
  "dip__MaximumAndMinimum_GetResult s =
     fold (\<lambda>ii out. MinMax_add out (mm_accArray s ! ii)) [1..<length (mm_accArray s)]
          (mm_accArray s ! 0)"

text \<open>
  The one-sample-at-a-time loop that the specification names as the substitute of the
  unrolled loop, with the same merge into the slot of the thread.
\<close>

definition MaximumAndMinimum_Filter_one_at_a_time ::
  "'a::linorder MinMaxAccumulator \<Rightarrow> 'a ScanLineFilterParameters \<Rightarrow> 'a dip__MaximumAndMinimum
     \<Rightarrow> 'a dip__MaximumAndMinimum" where
  "MaximumAndMinimum_Filter_one_at_a_time init params s =
     (let vars = fold (\<lambda>ii vars. MinMax_Push (inBuffer params ! ii) vars)
                      [0..<bufferLength params] init
      in s\<lparr> mm_accArray := (mm_accArray s)
               [thread params := MinMax_add (mm_accArray s ! thread params) vars] \<rparr>)"


text \<open>
  \<open>MaximumAndMinimum\<close> checks that the image is forged; the copy \<open>c_in\<close> and
  \<open>SplitComplex\<close>, which turn a complex image into a real one with one more
  dimension, prepare what the scan receives and belong to the parameter \<open>scan\<close>.
\<close>

definition MaximumAndMinimum ::
  "('i, 'a::linorder) scan_driver \<Rightarrow> 'a MinMaxAccumulator \<Rightarrow> 'i Image \<Rightarrow> bool Image
     \<Rightarrow> error + 'a MinMaxAccumulator option" where
  "MaximumAndMinimum scan init img msk =
     (if \<not> IsForged img then Inl IMAGE_NOT_FORGED
      else case scan img msk of
             Inl e \<Rightarrow> Inl e
           | Inr (threads, lines) \<Rightarrow>
               Inr (map_option dip__MaximumAndMinimum_GetResult
                      (fold (\<lambda>p s. Option.bind s (dip__MaximumAndMinimum_Filter init p)) lines
                         (Some (dip__MaximumAndMinimum_SetNumberOfThreads init threads
                                  \<lparr> mm_accArray = [] \<rparr>)))))"

subsection \<open>CenterOfMass\<close>

text \<open>
  \<open>FloatArray\<close> is an array of \<open>dfloat\<close>, here a list of reals. Element access does
  not check its index: an index at or past the size of the array is undefined
  behaviour, the value \<open>None\<close>. \<open>FloatArray_add_at j x\<close> is \<open>vars[ j ] += x\<close>;
  \<open>FloatArray_add\<close> is the element-wise \<open>+=\<close> of two arrays of one size. A
  default-constructed \<open>FloatArray\<close> is empty. The members \<open>accArray_\<close> and \<open>nD_\<close> are
  the fields \<open>com_accArray\<close> and \<open>com_nD\<close>.
\<close>

definition FloatArray_add_at :: "nat \<Rightarrow> real \<Rightarrow> real list \<Rightarrow> real list option" where
  "FloatArray_add_at j x vars = (if j < length vars then Some (vars[j := vars ! j + x]) else None)"

definition FloatArray_add :: "real list \<Rightarrow> real list \<Rightarrow> real list option" where
  "FloatArray_add a b = (if length a = length b then Some (map2 (+) a b) else None)"

record dip__CenterOfMass =
  com_accArray :: "real list list"
  com_nD :: nat

definition dip__CenterOfMass_new :: "nat \<Rightarrow> dip__CenterOfMass" where
  "dip__CenterOfMass_new nD = \<lparr> com_accArray = [], com_nD = nD \<rparr>"

definition dip__CenterOfMass_Filter ::
  "real ScanLineFilterParameters \<Rightarrow> dip__CenterOfMass \<Rightarrow> dip__CenterOfMass option" where
  "dip__CenterOfMass_Filter params s =
     (let inb = inBuffer params;
          nD = com_nD s;
          procDim = dimension params;
          accumulate = (\<lambda>pos x vars.
             Option.bind
               (fold (\<lambda>jj vars. Option.bind vars (FloatArray_add_at jj (real (pos ! jj) * x)))
                     [0..<nD] (Some vars))
               (FloatArray_add_at nD x));
          (vars, pos) = (case maskBuffer params of
              Some msk \<Rightarrow>
                fold (\<lambda>ii (vars, pos).
                        ((if msk ! ii then Option.bind vars (accumulate pos (inb ! ii)) else vars),
                         pos[procDim := pos ! procDim + 1]))
                     [0..<bufferLength params] (Some [], position params)
            | None \<Rightarrow>
                fold (\<lambda>ii (vars, pos).
                        (Option.bind vars (accumulate pos (inb ! ii)),
                         pos[procDim := pos ! procDim + 1]))
                     [0..<bufferLength params] (Some [], position params))
      in case vars of
           None \<Rightarrow> None
         | Some vars \<Rightarrow>
             (case FloatArray_add (com_accArray s ! thread params) vars of
                None \<Rightarrow> None
              | Some acc \<Rightarrow> Some (s\<lparr> com_accArray := (com_accArray s)[thread params := acc] \<rparr>)))"

definition dip__CenterOfMass_SetNumberOfThreads :: "nat \<Rightarrow> dip__CenterOfMass \<Rightarrow> dip__CenterOfMass" where
  "dip__CenterOfMass_SetNumberOfThreads threads s =
     s\<lparr> com_accArray := map (resize (com_nD s + 1) 0) (resize threads [] (com_accArray s)) \<rparr>"

definition dip__CenterOfMass_GetResult :: "dip__CenterOfMass \<Rightarrow> real list option" where
  "dip__CenterOfMass_GetResult s =
     (let nD = com_nD s
      in case fold (\<lambda>ii out. Option.bind out (\<lambda>out. FloatArray_add out (com_accArray s ! ii)))
                   [1..<length (com_accArray s)] (Some (com_accArray s ! 0)) of
           None \<Rightarrow> None
         | Some out \<Rightarrow>
             if nD < length out then
               Some (resize nD 0
                       (if out ! nD \<noteq> 0
                        then fold (\<lambda>jj out. out[jj := out ! jj / out ! nD]) [0..<nD] out
                        else fold (\<lambda>jj out. out[jj := 0]) [0..<nD] out))
             else None)"

definition CenterOfMass ::
  "('i, real) scan_driver \<Rightarrow> 'i Image \<Rightarrow> bool Image \<Rightarrow> error + real list option" where
  "CenterOfMass scan img msk =
     (if \<not> IsForged img then Inl IMAGE_NOT_FORGED
      else if \<not> IsScalar img then Inl IMAGE_NOT_SCALAR
      else case scan img msk of
             Inl e \<Rightarrow> Inl e
           | Inr (threads, lines) \<Rightarrow>
               Inr (Option.bind
                      (fold (\<lambda>p s. Option.bind s (dip__CenterOfMass_Filter p)) lines
                         (Some (dip__CenterOfMass_SetNumberOfThreads threads
                                  (dip__CenterOfMass_new (Dimensionality img)))))
                      dip__CenterOfMass_GetResult))"

subsection \<open>SampleStatistics, Covariance and Moments\<close>

text \<open>
  The accumulator classes of these three functions are not part of the sources. What
  follows their precondition checks, the scan and \<open>GetResult\<close>, is the parameter
  \<open>run\<close>, which for \<open>Covariance\<close> includes the check and the expansion of the
  mask; \<open>Image::CompareProperties\<close> is the parameter \<open>compare\<close>, which returns the
  exception it throws, if any.
\<close>

definition SampleStatistics ::
  "('i Image \<Rightarrow> bool Image \<Rightarrow> error + 'r) \<Rightarrow> 'i Image \<Rightarrow> bool Image \<Rightarrow> error + 'r" where
  "SampleStatistics run img msk =
     (if \<not> IsForged img then Inl IMAGE_NOT_FORGED
      else run img msk)"

definition Covariance ::
  "('i Image \<Rightarrow> 'i Image \<Rightarrow> error option) \<Rightarrow> ('i Image \<Rightarrow> 'i Image \<Rightarrow> bool Image \<Rightarrow> error + 'r)
     \<Rightarrow> 'i Image \<Rightarrow> 'i Image \<Rightarrow> bool Image \<Rightarrow> error + 'r" where
  "Covariance compare run in1 in2 c_mask =
     (if \<not> IsForged in1 \<or> \<not> IsForged in2 then Inl IMAGE_NOT_FORGED
      else case compare in1 in2 of
             Some e \<Rightarrow> Inl e
           | None \<Rightarrow> run in1 in2 c_mask)"

definition Moments ::
  "('i Image \<Rightarrow> bool Image \<Rightarrow> error + 'r) \<Rightarrow> 'i Image \<Rightarrow> bool Image \<Rightarrow> error + 'r" where
  "Moments run img msk =
     (if \<not> IsForged img then Inl IMAGE_NOT_FORGED
      else if \<not> IsScalar img then Inl IMAGE_NOT_SCALAR
      else run img msk)"

subsection \<open>The filters that push samples into an accumulator\<close>







subsection \<open>Notions used in the statements\<close>

text \<open>
  The number of samples of a line that \<open>Count\<close> counts: those whose value is true and
  whose mask sample, when there is a mask, is true.
\<close>

definition counted :: "bool ScanLineFilterParameters \<Rightarrow> nat" where
  "counted p =
     length (filter (\<lambda>ii. (case maskBuffer p of None \<Rightarrow> True | Some m \<Rightarrow> m ! ii) \<and> inBuffer p ! ii)
                    [0..<bufferLength p])"

text \<open>The same line scanned without a mask, and a line whose mask is constant.\<close>

definition unmasked :: "'a ScanLineFilterParameters \<Rightarrow> 'a ScanLineFilterParameters" where
  "unmasked p = p\<lparr> maskBuffer := None \<rparr>"

definition mask_all :: "bool \<Rightarrow> 'a ScanLineFilterParameters \<Rightarrow> bool" where
  "mask_all b p = (case maskBuffer p of None \<Rightarrow> False | Some m \<Rightarrow> list_all (\<lambda>x. x = b) m)"

text \<open>
  Concrete inputs: the raw image that stands for "no mask", a forged scalar image, a
  line along dimension 0 and the scan that runs the given lines on one thread; then a
  binary image of 3 by 2 samples, four of them true, scanned on two threads with a mask
  that is true everywhere, without a mask, and with a mask that is false everywhere.
\<close>

type_synonym uint8 = "8 word"

definition no_mask :: "bool Image" where
  "no_mask = \<lparr> forged = False, tensorElements = 1, sizes = [], pixels = (\<lambda>c. True) \<rparr>"

definition scalar_image :: "nat list \<Rightarrow> (nat list \<Rightarrow> 'a) \<Rightarrow> 'a Image" where
  "scalar_image sz f = \<lparr> forged = True, tensorElements = 1, sizes = sz, pixels = f \<rparr>"

definition scan_line :: "nat \<Rightarrow> nat list \<Rightarrow> 'a list \<Rightarrow> bool list option \<Rightarrow> 'a ScanLineFilterParameters" where
  "scan_line t pos xs m =
     \<lparr> inBuffer = xs, maskBuffer = m, bufferLength = length xs, dimension = 0, position = pos, thread = t \<rparr>"

definition one_thread :: "'a ScanLineFilterParameters list \<Rightarrow> ('i, 'a) scan_driver" where
  "one_thread lines img msk = Inr (1, lines)"

definition ex_img :: "bool Image" where
  "ex_img = scalar_image [3, 2] (\<lambda>c. c \<in> {[0, 0], [2, 0], [0, 1], [1, 1]})"

definition ex_mask :: "bool Image" where
  "ex_mask = scalar_image [3, 2] (\<lambda>c. True)"

definition ex_lines :: "bool ScanLineFilterParameters list" where
  "ex_lines =
     [scan_line 0 [0, 0] [True, False, True] (Some [True, True, True]),
      scan_line 1 [0, 1] [True, True, False] (Some [True, True, True])]"

definition ex_scan :: "(bool, bool) scan_driver" where
  "ex_scan img msk = (if IsForged msk then Inr (2, ex_lines) else Inr (2, map unmasked ex_lines))"

definition ex_lines_masked_out :: "bool ScanLineFilterParameters list" where
  "ex_lines_masked_out =
     [scan_line 0 [0, 0] [True, False, True] (Some [False, False, False]),
      scan_line 1 [0, 1] [True, True, False] (Some [False, False, False])]"

text \<open>
  Images that violate a precondition: a raw image, a forged image with three tensor
  elements and a forged image with no dimensions.
\<close>

definition raw_image :: "real Image" where
  "raw_image = \<lparr> forged = False, tensorElements = 3, sizes = [2], pixels = (\<lambda>c. 1) \<rparr>"

definition tensor_image :: "real Image" where
  "tensor_image = \<lparr> forged = True, tensorElements = 3, sizes = [2], pixels = (\<lambda>c. 1) \<rparr>"

definition zero_dim_image :: "real Image" where
  "zero_dim_image = \<lparr> forged = True, tensorElements = 1, sizes = [], pixels = (\<lambda>c. 1) \<rparr>"

text \<open>The one-dimensional image \<open>[1, 2, 3, 4]\<close> and the mask \<open>[true, false, true, true]\<close>.\<close>

definition cumsum_image :: "real Image" where
  "cumsum_image = scalar_image [4] (\<lambda>c. [1, 2, 3, 4] ! (c ! 0))"

definition cumsum_mask :: "bool Image" where
  "cumsum_mask = scalar_image [4] (\<lambda>c. [True, False, True, True] ! (c ! 0))"

text \<open>A stand-in for the default-constructed accumulator and two lines of three samples.\<close>

definition minmax_init :: "real MinMaxAccumulator" where
  "minmax_init = \<lparr> acc_min = 1000, acc_max = - 1000 \<rparr>"

definition minmax_lines :: "real ScanLineFilterParameters list" where
  "minmax_lines = [scan_line 0 [0, 0] [3, 1, 2] None, scan_line 1 [0, 1] [7, 5, 9] None]"

text \<open>
  Index \<open>i\<close> is the first (last) position of the largest (smallest) sample of a line.
\<close>

definition first_occurrence_of_max :: "'a::linorder list \<Rightarrow> nat \<Rightarrow> bool" where
  "first_occurrence_of_max xs i =
     (i < length xs \<and> list_all (\<lambda>x. x \<le> xs ! i) xs \<and> list_all (\<lambda>x. x < xs ! i) (take i xs))"

definition last_occurrence_of_max :: "'a::linorder list \<Rightarrow> nat \<Rightarrow> bool" where
  "last_occurrence_of_max xs i =
     (i < length xs \<and> list_all (\<lambda>x. x \<le> xs ! i) xs \<and> list_all (\<lambda>x. x < xs ! i) (drop (Suc i) xs))"

definition first_occurrence_of_min :: "'a::linorder list \<Rightarrow> nat \<Rightarrow> bool" where
  "first_occurrence_of_min xs i =
     (i < length xs \<and> list_all (\<lambda>x. xs ! i \<le> x) xs \<and> list_all (\<lambda>x. xs ! i < x) (take i xs))"

definition last_occurrence_of_min :: "'a::linorder list \<Rightarrow> nat \<Rightarrow> bool" where
  "last_occurrence_of_min xs i =
     (i < length xs \<and> list_all (\<lambda>x. xs ! i \<le> x) xs \<and> list_all (\<lambda>x. xs ! i < x) (drop (Suc i) xs))"

text \<open>
  The promotion of samples to \<open>dfloat\<close>: \<open>numeric_limits< dfloat >::lowest()\<close>, the value
  of a \<open>uint8\<close> and of a \<open>bin\<close> sample as a \<open>dfloat\<close>, a line and the slots of the
  threads with every sample promoted, and an accumulator that sums what is pushed.
\<close>

definition dfloat_lowest :: real where
  "dfloat_lowest = - (2 ^ 1024 - 2 ^ 971)"

definition dfloat_of_uint8 :: "uint8 \<Rightarrow> real" where
  "dfloat_of_uint8 x = real (unat x)"


definition promoted :: "('a \<Rightarrow> 'b) \<Rightarrow> 'a ScanLineFilterParameters \<Rightarrow> 'b ScanLineFilterParameters" where
  "promoted cast p =
     \<lparr> inBuffer = map cast (inBuffer p), maskBuffer = maskBuffer p, bufferLength = bufferLength p,
       dimension = dimension p, position = position p, thread = thread p \<rparr>"





section \<open>Count\<close>

lemma count_loop:
  "fold (\<lambda>ii count. if P ii then count + 1 else count) xs (c :: dip_uint) = c + of_nat (length (filter P xs))"
  by (induction xs arbitrary: c) simp_all

lemma Filter_counts:
  "counts (dip__Count_Filter p s) = (counts s)[thread p := counts s ! thread p + of_nat (counted p)]"
  by (cases "maskBuffer p") (simp_all add: dip__Count_Filter_def counted_def count_loop)

lemma sum_list_update_add:
  "i < length xs \<Longrightarrow> sum_list (xs[i := xs ! i + c]) = sum_list xs + (c :: dip_uint)"
  by (induction xs arbitrary: i) (auto split: nat.splits simp: nth_Cons')

lemma fold_nth_sum:
  "fold (\<lambda>ii out. out + (ys @ cs) ! (length ys + ii)) [0..<length cs] (a :: dip_uint) = a + sum_list cs"
proof (induction cs arbitrary: a rule: rev_induct)
  case Nil
  then show ?case by simp
next
  case (snoc x xs)
  have "fold (\<lambda>ii out. out + (ys @ xs @ [x]) ! (length ys + ii)) [0..<length xs] a
      = fold (\<lambda>ii out. out + (ys @ xs) ! (length ys + ii)) [0..<length xs] a"
    by (rule fold_cong) (simp_all add: nth_append)
  then show ?case using snoc by (simp add: nth_append add.assoc)
qed

lemma GetResult_sum:
  assumes "counts s \<noteq> []"
  shows "dip__Count_GetResult s = sum_list (counts s)"
proof -
  obtain c cs where cs: "counts s = c # cs" using assms by (cases "counts s") auto
  have "[1..<length (c # cs)] = map (\<lambda>ii. 1 + ii) [0..<length cs]"
    by (simp add: map_Suc_upt)
  then have "fold (\<lambda>ii out. out + (c # cs) ! ii) [1..<length (c # cs)] c
      = fold (\<lambda>ii out. out + ([c] @ cs) ! (length [c] + ii)) [0..<length cs] c"
    by (simp add: fold_map comp_def)
  also have "\<dots> = c + sum_list cs" by (rule fold_nth_sum)
  finally show ?thesis by (simp add: dip__Count_GetResult_def cs)
qed

lemma fold_Filter_counts:
  assumes "\<forall>p\<in>set lines. thread p < length (counts s)"
  shows "length (counts (fold dip__Count_Filter lines s)) = length (counts s) \<and>
         sum_list (counts (fold dip__Count_Filter lines s)) = sum_list (counts s) + of_nat (sum_list (map counted lines))"
  using assms
proof (induction lines arbitrary: s)
  case Nil
  then show ?case by simp
next
  case (Cons p ps)
  let ?s = "dip__Count_Filter p s"
  have len: "length (counts ?s) = length (counts s)" by (simp add: Filter_counts)
  have sm: "sum_list (counts ?s) = sum_list (counts s) + of_nat (counted p)"
    using Cons.prems by (simp add: Filter_counts sum_list_update_add)
  have "\<forall>q\<in>set ps. thread q < length (counts ?s)" using Cons.prems len by simp
  from Cons.IH[OF this] show ?case using len sm by (simp add: add.assoc)
qed

lemma counted_all_false: "wf_params threads nD p \<Longrightarrow> mask_all False p \<Longrightarrow> counted p = 0"
  by (auto simp: counted_def mask_all_def wf_params_def list_all_length filter_empty_conv split: option.splits)

lemma counted_all_true: "wf_params threads nD p \<Longrightarrow> mask_all True p \<Longrightarrow> counted p = counted (unmasked p)"
  unfolding counted_def mask_all_def wf_params_def unmasked_def
  by (auto simp: list_all_length split: option.splits intro!: arg_cong[where f=length] filter_cong)

lemma Count_value:
  assumes "IsForged img" "IsScalar img" "scan img msk = Inr (threads, lines)" "0 < threads"
    and wf: "\<forall>p\<in>set lines. thread p < threads"
  shows "Count scan img msk = Inr (of_nat (sum_list (map counted lines)))"
proof -
  let ?s0 = "dip__Count_SetNumberOfThreads threads dip__Count_new"
  have c0: "counts ?s0 = replicate threads 0"
    by (simp add: dip__Count_SetNumberOfThreads_def dip__Count_new_def resize_def)
  have thr: "\<forall>p\<in>set lines. thread p < length (counts ?s0)"
    using wf by (simp add: c0)
  note run = fold_Filter_counts[OF thr]
  have ne: "counts (fold dip__Count_Filter lines ?s0) \<noteq> []"
    using run assms(4) by (auto simp: c0)
  show ?thesis
    using assms(1-3) run by (simp add: Count_def GetResult_sum[OF ne] c0 sum_list_replicate)
qed

text \<open>
  Claim C6. \<open>Filter\<close> adds to the counter of its thread the number of samples of the
  line whose value is true and whose mask sample, if the line has a mask, is true;
  \<open>GetResult\<close> is the sum of the counters of the threads, so \<open>Count\<close> returns the
  number of such samples of all lines, as a 64-bit unsigned value. With a mask that is
  false everywhere the result is 0; with a mask that is true everywhere it is the
  result of the scan of the same lines without a mask.
\<close>

theorem Count_increments_and_sums:
  assumes "IsForged img" and "IsScalar img" and "scan img msk = Inr (threads, lines)"
    and "0 < threads" and "\<forall>p\<in>set lines. wf_params threads nD p"
  shows "(\<forall>p s. counts (dip__Count_Filter p s)
                 = (counts s)[thread p := counts s ! thread p + of_nat (counted p)]) \<and>
         (\<forall>s. counts s \<noteq> [] \<longrightarrow> dip__Count_GetResult s = sum_list (counts s)) \<and>
         Count scan img msk = Inr (of_nat (sum_list (map counted lines))) \<and>
         ((\<forall>p\<in>set lines. mask_all False p) \<longrightarrow> Count scan img msk = Inr 0) \<and>
         ((\<forall>p\<in>set lines. mask_all True p) \<and> scan img nomask = Inr (threads, map unmasked lines)
            \<longrightarrow> Count scan img msk = Count scan img nomask)"
proof -
  have thr: "\<forall>p\<in>set lines. thread p < threads"
    using assms(5) by (simp add: wf_params_def)
  have val: "Count scan img msk = Inr (of_nat (sum_list (map counted lines)))"
    using assms(1-4) thr by (rule Count_value)
  have allF: "Count scan img msk = Inr 0" if "\<forall>p\<in>set lines. mask_all False p"
  proof -
    have "\<forall>n\<in>set (map counted lines). n = 0"
      using that assms(5) by (auto intro: counted_all_false)
    then have z: "sum_list (map counted lines) = 0"
      by (simp only: sum_list_eq_0_iff)
    show ?thesis unfolding val z by simp
  qed
  have allT: "Count scan img msk = Count scan img nomask"
    if "\<forall>p\<in>set lines. mask_all True p" and sc: "scan img nomask = Inr (threads, map unmasked lines)"
  proof -
    have thr': "\<forall>p\<in>set (map unmasked lines). thread p < threads"
      using thr by (simp add: unmasked_def)
    have "map counted lines = map counted (map unmasked lines)"
      using that(1) assms(5) by (auto intro: counted_all_true)
    then show ?thesis
      using Count_value[where scan = scan and msk = nomask, OF assms(1,2) sc assms(4) thr']
      by (simp only: val)
  qed
  show ?thesis using val allF allT by (simp add: Filter_counts GetResult_sum)
qed

theorem Count_increments_and_sums_witness:
  "IsForged ex_img \<and> IsScalar ex_img \<and> ex_scan ex_img ex_mask = Inr (2, ex_lines) \<and> (0::nat) < 2 \<and>
   list_all (wf_params 2 2) ex_lines \<and> list_all (mask_all True) ex_lines \<and>
   ex_scan ex_img no_mask = Inr (2, map unmasked ex_lines) \<and>
   Count ex_scan ex_img ex_mask = Inr 4 \<and>
   Count ex_scan ex_img no_mask = Inr 4 \<and>
   list_all (wf_params 2 2) ex_lines_masked_out \<and> list_all (mask_all False) ex_lines_masked_out \<and>
   Count (\<lambda>img msk. Inr (2, ex_lines_masked_out)) ex_img ex_mask = Inr 0"
proof -
  have h: "IsForged ex_img" "IsScalar ex_img" "ex_scan ex_img ex_mask = Inr (2, ex_lines)" "(0::nat) < 2"
    "\<forall>p\<in>set ex_lines. wf_params 2 2 p"
    by (simp_all add: IsForged_def IsScalar_def ex_img_def ex_mask_def scalar_image_def ex_scan_def
        ex_lines_def scan_line_def wf_params_def)
  have t: "\<forall>p\<in>set ex_lines. mask_all True p"
    by (simp add: ex_lines_def scan_line_def mask_all_def)
  have u: "ex_scan ex_img no_mask = Inr (2, map unmasked ex_lines)"
    by (simp add: ex_scan_def IsForged_def no_mask_def)
  have c: "sum_list (map counted ex_lines) = 4"
    by (simp add: ex_lines_def scan_line_def counted_def upt_conv_Cons)
  note inst = Count_increments_and_sums[where scan = ex_scan and img = ex_img and msk = ex_mask
      and nomask = no_mask, OF h]
  have a: "Count ex_scan ex_img ex_mask = Inr 4"
    using inst c by simp
  have b: "Count ex_scan ex_img ex_mask = Count ex_scan ex_img no_mask"
    using inst t u by blast
  have b': "Count ex_scan ex_img no_mask = Inr 4"
    by (simp only: b[symmetric] a)
  have w: "\<forall>p\<in>set ex_lines_masked_out. wf_params 2 2 p"
    by (simp add: ex_lines_masked_out_def scan_line_def wf_params_def)
  have f: "\<forall>p\<in>set ex_lines_masked_out. mask_all False p"
    by (simp add: ex_lines_masked_out_def scan_line_def mask_all_def)
  have s: "(\<lambda>img msk. Inr (2, ex_lines_masked_out)) ex_img ex_mask = Inr (2, ex_lines_masked_out)"
    by simp
  have z: "Count (\<lambda>img msk. Inr (2, ex_lines_masked_out)) ex_img ex_mask = Inr 0"
    using Count_increments_and_sums[where scan = "\<lambda>img msk. Inr (2, ex_lines_masked_out)"
        and img = ex_img and msk = ex_mask and nomask = no_mask, OF h(1,2) s h(4) w] f
    by blast
  show ?thesis using h t u a b' w f z by (simp add: list_all_iff)
qed

section \<open>MaximumPixel and MinimumPixel\<close>

text \<open>
  The scan of one line without a mask. With the strict comparison the running value ends
  at the first largest sample, provided some sample exceeds the initial value; with the
  non-strict comparison it ends at the last largest sample.
\<close>

lemma first_loop:
  fixes inb :: "'a::linorder list"
  assumes "k \<le> length inb"
  shows "case fold (\<lambda>ii (value, coord). if inb ! ii > value then (inb ! ii, here ii) else (value, coord))
                   [0..<k] (lowest, coord0) of
           (value, coord) \<Rightarrow>
             (value = lowest \<and> coord = coord0 \<and> (\<forall>j<k. inb ! j \<le> lowest)) \<or>
             (\<exists>i<k. value = inb ! i \<and> coord = here i \<and> lowest < inb ! i \<and>
                    (\<forall>j<k. inb ! j \<le> inb ! i) \<and> (\<forall>j<i. inb ! j < inb ! i))"
  using assms
proof (induction k)
  case 0
  then show ?case by simp
next
  case (Suc k)
  obtain v c where st: "fold (\<lambda>ii (value, coord). if inb ! ii > value then (inb ! ii, here ii) else (value, coord))
                   [0..<k] (lowest, coord0) = (v, c)"
    by (cases "fold (\<lambda>ii (value, coord). if inb ! ii > value then (inb ! ii, here ii) else (value, coord))
                   [0..<k] (lowest, coord0)")
  from Suc have inv: "(v = lowest \<and> c = coord0 \<and> (\<forall>j<k. inb ! j \<le> lowest)) \<or>
             (\<exists>i<k. v = inb ! i \<and> c = here i \<and> lowest < inb ! i \<and>
                    (\<forall>j<k. inb ! j \<le> inb ! i) \<and> (\<forall>j<i. inb ! j < inb ! i))"
    by (simp add: st)
  show ?case
  proof (cases "inb ! k > v")
    case True
    have "lowest < inb ! k" using inv True by auto
    moreover have "\<forall>j<Suc k. inb ! j \<le> inb ! k"
      using inv True by (auto simp: less_Suc_eq)
    moreover have "\<forall>j<k. inb ! j < inb ! k"
      using inv True by (auto simp: less_Suc_eq) 
    ultimately show ?thesis using True by (auto simp: st)
  next
    case False
    then have le: "inb ! k \<le> v" by simp
    from inv show ?thesis
    proof
      assume a: "v = lowest \<and> c = coord0 \<and> (\<forall>j<k. inb ! j \<le> lowest)"
      then have "\<forall>j<Suc k. inb ! j \<le> lowest" using le by (auto simp: less_Suc_eq)
      then show ?thesis using a False by (simp add: st)
    next
      assume "\<exists>i<k. v = inb ! i \<and> c = here i \<and> lowest < inb ! i \<and>
                    (\<forall>j<k. inb ! j \<le> inb ! i) \<and> (\<forall>j<i. inb ! j < inb ! i)"
      then obtain i where i: "i < k" "v = inb ! i" "c = here i" "lowest < inb ! i"
        "\<forall>j<k. inb ! j \<le> inb ! i" "\<forall>j<i. inb ! j < inb ! i" by blast
      have "\<forall>j<Suc k. inb ! j \<le> inb ! i" using i(2,5) le by (auto simp: less_Suc_eq)
      then show ?thesis using i False by (auto simp: st intro!: exI[of _ i])
    qed
  qed
qed

lemma last_loop:
  fixes inb :: "'a::linorder list"
  assumes "k \<le> length inb" "\<forall>v. lowest \<le> v"
  shows "case fold (\<lambda>ii (value, coord). if inb ! ii \<ge> value then (inb ! ii, here ii) else (value, coord))
                   [0..<k] (lowest, coord0) of
           (value, coord) \<Rightarrow>
             (k = 0 \<and> value = lowest \<and> coord = coord0) \<or>
             (\<exists>i<k. value = inb ! i \<and> coord = here i \<and>
                    (\<forall>j<k. inb ! j \<le> inb ! i) \<and> (\<forall>j<k. i < j \<longrightarrow> inb ! j < inb ! i))"
  using assms
proof (induction k)
  case 0
  then show ?case by simp
next
  case (Suc k)
  obtain v c where st: "fold (\<lambda>ii (value, coord). if inb ! ii \<ge> value then (inb ! ii, here ii) else (value, coord))
                   [0..<k] (lowest, coord0) = (v, c)"
    by (cases "fold (\<lambda>ii (value, coord). if inb ! ii \<ge> value then (inb ! ii, here ii) else (value, coord))
                   [0..<k] (lowest, coord0)")
  from Suc have inv: "(k = 0 \<and> v = lowest \<and> c = coord0) \<or>
             (\<exists>i<k. v = inb ! i \<and> c = here i \<and>
                    (\<forall>j<k. inb ! j \<le> inb ! i) \<and> (\<forall>j<k. i < j \<longrightarrow> inb ! j < inb ! i))"
    by (simp add: st)
  show ?case
  proof (cases "inb ! k \<ge> v")
    case True
    have "\<forall>j<Suc k. inb ! j \<le> inb ! k"
      using inv True by (auto simp: less_Suc_eq)
    then show ?thesis using True by (auto simp: st intro!: exI[of _ k])
  next
    case False
    then have lt: "inb ! k < v" by simp
    from inv show ?thesis
    proof
      assume "k = 0 \<and> v = lowest \<and> c = coord0"
      then show ?thesis using lt Suc.prems(2) by (auto simp: not_less[symmetric])
    next
      assume "\<exists>i<k. v = inb ! i \<and> c = here i \<and>
                    (\<forall>j<k. inb ! j \<le> inb ! i) \<and> (\<forall>j<k. i < j \<longrightarrow> inb ! j < inb ! i)"
      then obtain i where i: "i < k" "v = inb ! i" "c = here i"
        "\<forall>j<k. inb ! j \<le> inb ! i" "\<forall>j<k. i < j \<longrightarrow> inb ! j < inb ! i" by blast
      have "\<forall>j<Suc k. inb ! j \<le> inb ! i" "\<forall>j<Suc k. i < j \<longrightarrow> inb ! j < inb ! i"
        using i(2,4,5) lt by (auto simp: less_Suc_eq)
      then show ?thesis using i False by (auto simp: st intro!: exI[of _ i])
    qed
  qed
qed

lemma MaximumPixel_line_first:
  assumes "IsForged img" and "IsScalar img" and "wf_params 1 nD p" and "maskBuffer p = None"
    and "\<exists>i<bufferLength p. lowest < inBuffer p ! i"
  shows "\<exists>i. first_occurrence_of_max (inBuffer p) i \<and>
             MaximumPixel (one_thread [p]) lowest img msk ''first''
               = Inr ((position p)[dimension p := position p ! dimension p + i])"
proof -
  let ?here = "\<lambda>ii. (position p)[dimension p := position p ! dimension p + ii]"
  let ?loop = "fold (\<lambda>ii (value, coord). if inBuffer p ! ii > value then (inBuffer p ! ii, ?here ii)
                                           else (value, coord))
                    [0..<bufferLength p] (lowest, replicate (length (position p)) 0)"
  have len: "length (inBuffer p) = bufferLength p" and thr: "thread p = 0"
    using assms(3) by (simp_all add: wf_params_def)
  obtain v c where st: "?loop = (v, c)" by (cases ?loop)
  from first_loop[where k = "bufferLength p" and inb = "inBuffer p" and here = ?here and lowest = lowest
      and ?coord0.0 = "replicate (length (position p)) 0"]
  have "(v = lowest \<and> c = replicate (length (position p)) 0 \<and> (\<forall>j<bufferLength p. inBuffer p ! j \<le> lowest)) \<or>
        (\<exists>i<bufferLength p. v = inBuffer p ! i \<and> c = ?here i \<and> lowest < inBuffer p ! i \<and>
           (\<forall>j<bufferLength p. inBuffer p ! j \<le> inBuffer p ! i) \<and> (\<forall>j<i. inBuffer p ! j < inBuffer p ! i))"
    by (simp add: len st)
  then obtain i where i: "i < bufferLength p" "v = inBuffer p ! i" "c = ?here i" "lowest < inBuffer p ! i"
    "\<forall>j<bufferLength p. inBuffer p ! j \<le> inBuffer p ! i" "\<forall>j<i. inBuffer p ! j < inBuffer p ! i"
    using assms(5) by (auto simp: not_le[symmetric])
  have occ: "first_occurrence_of_max (inBuffer p) i"
    using i(1,5,6) len by (auto simp: first_occurrence_of_max_def list_all_length)
  have "MaximumPixel (one_thread [p]) lowest img msk ''first'' = Inr (?here i)"
    using assms(1,2,4) i(2,3,4) thr
    by (simp add: MaximumPixel_def one_thread_def dip__MaxPixel_Filter_def st
        dip__MaxPixel_SetNumberOfThreads_def dip__MaxMinPixel_new_def resize_def
        dip__MaxPixel_GetResult_def)
  then show ?thesis using occ by blast
qed

lemma MaximumPixel_line_last:
  assumes "IsForged img" and "IsScalar img" and "wf_params 1 nD p" and "maskBuffer p = None"
    and "0 < bufferLength p" and "\<forall>v. lowest \<le> v" and "positionFlag \<noteq> ''first''"
  shows "\<exists>i. last_occurrence_of_max (inBuffer p) i \<and>
             MaximumPixel (one_thread [p]) lowest img msk positionFlag
               = Inr ((position p)[dimension p := position p ! dimension p + i])"
proof -
  let ?here = "\<lambda>ii. (position p)[dimension p := position p ! dimension p + ii]"
  let ?loop = "fold (\<lambda>ii (value, coord). if inBuffer p ! ii \<ge> value then (inBuffer p ! ii, ?here ii)
                                           else (value, coord))
                    [0..<bufferLength p] (lowest, replicate (length (position p)) 0)"
  have len: "length (inBuffer p) = bufferLength p" and thr: "thread p = 0"
    using assms(3) by (simp_all add: wf_params_def)
  obtain v c where st: "?loop = (v, c)" by (cases ?loop)
  from last_loop[where k = "bufferLength p" and inb = "inBuffer p" and here = ?here and lowest = lowest
      and ?coord0.0 = "replicate (length (position p)) 0"] assms(6)
  have "(bufferLength p = 0 \<and> v = lowest \<and> c = replicate (length (position p)) 0) \<or>
        (\<exists>i<bufferLength p. v = inBuffer p ! i \<and> c = ?here i \<and>
           (\<forall>j<bufferLength p. inBuffer p ! j \<le> inBuffer p ! i) \<and>
           (\<forall>j<bufferLength p. i < j \<longrightarrow> inBuffer p ! j < inBuffer p ! i))"
    by (simp add: len st)
  then obtain i where i: "i < bufferLength p" "v = inBuffer p ! i" "c = ?here i"
    "\<forall>j<bufferLength p. inBuffer p ! j \<le> inBuffer p ! i"
    "\<forall>j<bufferLength p. i < j \<longrightarrow> inBuffer p ! j < inBuffer p ! i"
    using assms(5) by auto
  have occ: "last_occurrence_of_max (inBuffer p) i"
    using i(1,4,5) len by (auto simp: last_occurrence_of_max_def list_all_length)
  have "MaximumPixel (one_thread [p]) lowest img msk positionFlag = Inr (?here i)"
    using assms(1,2,4,6,7) i(2,3) thr
    by (simp add: MaximumPixel_def one_thread_def dip__MaxPixel_Filter_def st
        dip__MaxPixel_SetNumberOfThreads_def dip__MaxMinPixel_new_def resize_def
        dip__MaxPixel_GetResult_def)
  then show ?thesis using occ by blast
qed

text \<open>
  The slots start at the lowest (highest) value with an empty coordinate. A line of
  which no sample is taken leaves the slot of its thread as it is when \<open>first\<close> is
  set, or when the slot holds a value other than the initial one.
\<close>

lemma MaxPixel_slots_start_at_lowest:
  "pix_value (dip__MaxPixel_SetNumberOfThreads lowest threads (dip__MaxMinPixel_new first))
     = replicate threads lowest \<and>
   pix_coord (dip__MaxPixel_SetNumberOfThreads lowest threads (dip__MaxMinPixel_new first))
     = replicate threads [] \<and>
   pix_value (dip__MinPixel_SetNumberOfThreads highest threads (dip__MaxMinPixel_new first))
     = replicate threads highest \<and>
   pix_coord (dip__MinPixel_SetNumberOfThreads highest threads (dip__MaxMinPixel_new first))
     = replicate threads []"
  by (simp add: dip__MaxPixel_SetNumberOfThreads_def dip__MinPixel_SetNumberOfThreads_def
      dip__MaxMinPixel_new_def resize_def)

lemma fold_unchanged: "(\<And>x. x \<in> set xs \<Longrightarrow> f x st = st) \<Longrightarrow> fold f xs st = st"
  by (induction xs) simp_all

lemma MaxPixel_Filter_no_sample:
  assumes "maskBuffer p = Some m" and "\<forall>ii<bufferLength p. \<not> m ! ii" and "\<forall>v. lowest \<le> v"
    and "pix_first s \<or> lowest < pix_value s ! thread p"
  shows "dip__MaxPixel_Filter lowest p s = s"
proof -
  let ?here = "\<lambda>ii. (position p)[dimension p := position p ! dimension p + ii]"
  have strict: "fold (\<lambda>ii (value, coord). if m ! ii \<and> inBuffer p ! ii > value then (inBuffer p ! ii, ?here ii)
                                   else (value, coord)) [0..<bufferLength p] st = st" for st
    using assms(2) by (intro fold_unchanged) (auto simp: case_prod_beta)
  have nonstrict: "fold (\<lambda>ii (value, coord). if m ! ii \<and> inBuffer p ! ii \<ge> value then (inBuffer p ! ii, ?here ii)
                                   else (value, coord)) [0..<bufferLength p] st = st" for st
    using assms(2) by (intro fold_unchanged) (auto simp: case_prod_beta)
  have no_gain: "\<not> lowest > pix_value s ! thread p"
    using assms(3) by (simp add: not_less)
  show ?thesis
    unfolding dip__MaxPixel_Filter_def Let_def assms(1) option.case strict nonstrict prod.case
    using assms(4) no_gain by auto
qed

lemma MinPixel_Filter_no_sample:
  assumes "maskBuffer p = Some m" and "\<forall>ii<bufferLength p. \<not> m ! ii" and "\<forall>v. v \<le> highest"
    and "pix_first s \<or> pix_value s ! thread p < highest"
  shows "dip__MinPixel_Filter highest p s = s"
proof -
  let ?here = "\<lambda>ii. (position p)[dimension p := position p ! dimension p + ii]"
  have strict: "fold (\<lambda>ii (value, coord). if m ! ii \<and> inBuffer p ! ii < value then (inBuffer p ! ii, ?here ii)
                                   else (value, coord)) [0..<bufferLength p] st = st" for st
    using assms(2) by (intro fold_unchanged) (auto simp: case_prod_beta)
  have nonstrict: "fold (\<lambda>ii (value, coord). if m ! ii \<and> inBuffer p ! ii \<le> value then (inBuffer p ! ii, ?here ii)
                                   else (value, coord)) [0..<bufferLength p] st = st" for st
    using assms(2) by (intro fold_unchanged) (auto simp: case_prod_beta)
  have no_gain: "\<not> highest < pix_value s ! thread p"
    using assms(3) by (simp add: not_less)
  show ?thesis
    unfolding dip__MinPixel_Filter_def Let_def assms(1) option.case strict nonstrict prod.case
    using assms(4) no_gain by auto
qed

lemma first_loop_min:
  fixes inb :: "'a::linorder list"
  assumes "k \<le> length inb"
  shows "case fold (\<lambda>ii (value, coord). if inb ! ii < value then (inb ! ii, here ii) else (value, coord))
                   [0..<k] (highest, coord0) of
           (value, coord) \<Rightarrow>
             (value = highest \<and> coord = coord0 \<and> (\<forall>j<k. highest \<le> inb ! j)) \<or>
             (\<exists>i<k. value = inb ! i \<and> coord = here i \<and> inb ! i < highest \<and>
                    (\<forall>j<k. inb ! i \<le> inb ! j) \<and> (\<forall>j<i. inb ! i < inb ! j))"
  using assms
proof (induction k)
  case 0
  then show ?case by simp
next
  case (Suc k)
  obtain v c where st: "fold (\<lambda>ii (value, coord). if inb ! ii < value then (inb ! ii, here ii) else (value, coord))
                   [0..<k] (highest, coord0) = (v, c)"
    by (cases "fold (\<lambda>ii (value, coord). if inb ! ii < value then (inb ! ii, here ii) else (value, coord))
                   [0..<k] (highest, coord0)")
  from Suc have inv: "(v = highest \<and> c = coord0 \<and> (\<forall>j<k. highest \<le> inb ! j)) \<or>
             (\<exists>i<k. v = inb ! i \<and> c = here i \<and> inb ! i < highest \<and>
                    (\<forall>j<k. inb ! i \<le> inb ! j) \<and> (\<forall>j<i. inb ! i < inb ! j))"
    by (simp add: st)
  show ?case
  proof (cases "inb ! k < v")
    case True
    have "inb ! k < highest" using inv True by auto
    moreover have "\<forall>j<Suc k. inb ! k \<le> inb ! j"
      using inv True by (auto simp: less_Suc_eq)
    moreover have "\<forall>j<k. inb ! k < inb ! j"
      using inv True by (auto simp: less_Suc_eq) 
    ultimately show ?thesis using True by (auto simp: st)
  next
    case False
    then have le: "v \<le> inb ! k" by simp
    from inv show ?thesis
    proof
      assume a: "v = highest \<and> c = coord0 \<and> (\<forall>j<k. highest \<le> inb ! j)"
      then have "\<forall>j<Suc k. highest \<le> inb ! j" using le by (auto simp: less_Suc_eq)
      then show ?thesis using a False by (simp add: st)
    next
      assume "\<exists>i<k. v = inb ! i \<and> c = here i \<and> inb ! i < highest \<and>
                    (\<forall>j<k. inb ! i \<le> inb ! j) \<and> (\<forall>j<i. inb ! i < inb ! j)"
      then obtain i where i: "i < k" "v = inb ! i" "c = here i" "inb ! i < highest"
        "\<forall>j<k. inb ! i \<le> inb ! j" "\<forall>j<i. inb ! i < inb ! j" by blast
      have "\<forall>j<Suc k. inb ! i \<le> inb ! j" using i(2,5) le by (auto simp: less_Suc_eq)
      then show ?thesis using i False by (auto simp: st intro!: exI[of _ i])
    qed
  qed
qed

lemma last_loop_min:
  fixes inb :: "'a::linorder list"
  assumes "k \<le> length inb" "\<forall>v. v \<le> highest"
  shows "case fold (\<lambda>ii (value, coord). if inb ! ii \<le> value then (inb ! ii, here ii) else (value, coord))
                   [0..<k] (highest, coord0) of
           (value, coord) \<Rightarrow>
             (k = 0 \<and> value = highest \<and> coord = coord0) \<or>
             (\<exists>i<k. value = inb ! i \<and> coord = here i \<and>
                    (\<forall>j<k. inb ! i \<le> inb ! j) \<and> (\<forall>j<k. i < j \<longrightarrow> inb ! i < inb ! j))"
  using assms
proof (induction k)
  case 0
  then show ?case by simp
next
  case (Suc k)
  obtain v c where st: "fold (\<lambda>ii (value, coord). if inb ! ii \<le> value then (inb ! ii, here ii) else (value, coord))
                   [0..<k] (highest, coord0) = (v, c)"
    by (cases "fold (\<lambda>ii (value, coord). if inb ! ii \<le> value then (inb ! ii, here ii) else (value, coord))
                   [0..<k] (highest, coord0)")
  from Suc have inv: "(k = 0 \<and> v = highest \<and> c = coord0) \<or>
             (\<exists>i<k. v = inb ! i \<and> c = here i \<and>
                    (\<forall>j<k. inb ! i \<le> inb ! j) \<and> (\<forall>j<k. i < j \<longrightarrow> inb ! i < inb ! j))"
    by (simp add: st)
  show ?case
  proof (cases "inb ! k \<le> v")
    case True
    have "\<forall>j<Suc k. inb ! k \<le> inb ! j"
      using inv True by (auto simp: less_Suc_eq)
    then show ?thesis using True by (auto simp: st intro!: exI[of _ k])
  next
    case False
    then have lt: "v < inb ! k" by simp
    from inv show ?thesis
    proof
      assume "k = 0 \<and> v = highest \<and> c = coord0"
      then show ?thesis using lt Suc.prems(2) by (auto simp: not_less[symmetric])
    next
      assume "\<exists>i<k. v = inb ! i \<and> c = here i \<and>
                    (\<forall>j<k. inb ! i \<le> inb ! j) \<and> (\<forall>j<k. i < j \<longrightarrow> inb ! i < inb ! j)"
      then obtain i where i: "i < k" "v = inb ! i" "c = here i"
        "\<forall>j<k. inb ! i \<le> inb ! j" "\<forall>j<k. i < j \<longrightarrow> inb ! i < inb ! j" by blast
      have "\<forall>j<Suc k. inb ! i \<le> inb ! j" "\<forall>j<Suc k. i < j \<longrightarrow> inb ! i < inb ! j"
        using i(2,4,5) lt by (auto simp: less_Suc_eq)
      then show ?thesis using i False by (auto simp: st intro!: exI[of _ i])
    qed
  qed
qed

lemma MinimumPixel_line_first:
  assumes "IsForged img" and "IsScalar img" and "wf_params 1 nD p" and "maskBuffer p = None"
    and "\<exists>i<bufferLength p. inBuffer p ! i < highest"
  shows "\<exists>i. first_occurrence_of_min (inBuffer p) i \<and>
             MinimumPixel (one_thread [p]) highest img msk ''first''
               = Inr ((position p)[dimension p := position p ! dimension p + i])"
proof -
  let ?here = "\<lambda>ii. (position p)[dimension p := position p ! dimension p + ii]"
  let ?loop = "fold (\<lambda>ii (value, coord). if inBuffer p ! ii < value then (inBuffer p ! ii, ?here ii)
                                           else (value, coord))
                    [0..<bufferLength p] (highest, replicate (length (position p)) 0)"
  have len: "length (inBuffer p) = bufferLength p" and thr: "thread p = 0"
    using assms(3) by (simp_all add: wf_params_def)
  obtain v c where st: "?loop = (v, c)" by (cases ?loop)
  from first_loop_min[where k = "bufferLength p" and inb = "inBuffer p" and here = ?here and highest = highest
      and ?coord0.0 = "replicate (length (position p)) 0"]
  have "(v = highest \<and> c = replicate (length (position p)) 0 \<and> (\<forall>j<bufferLength p. highest \<le> inBuffer p ! j)) \<or>
        (\<exists>i<bufferLength p. v = inBuffer p ! i \<and> c = ?here i \<and> inBuffer p ! i < highest \<and>
           (\<forall>j<bufferLength p. inBuffer p ! i \<le> inBuffer p ! j) \<and> (\<forall>j<i. inBuffer p ! i < inBuffer p ! j))"
    by (simp add: len st)
  then obtain i where i: "i < bufferLength p" "v = inBuffer p ! i" "c = ?here i" "inBuffer p ! i < highest"
    "\<forall>j<bufferLength p. inBuffer p ! i \<le> inBuffer p ! j" "\<forall>j<i. inBuffer p ! i < inBuffer p ! j"
    using assms(5) by (auto simp: not_le[symmetric])
  have occ: "first_occurrence_of_min (inBuffer p) i"
    using i(1,5,6) len by (auto simp: first_occurrence_of_min_def list_all_length)
  have "MinimumPixel (one_thread [p]) highest img msk ''first'' = Inr (?here i)"
    using assms(1,2,4) i(2,3,4) thr
    by (simp add: MinimumPixel_def one_thread_def dip__MinPixel_Filter_def st
        dip__MinPixel_SetNumberOfThreads_def dip__MaxMinPixel_new_def resize_def
        dip__MinPixel_GetResult_def)
  then show ?thesis using occ by blast
qed

lemma MinimumPixel_line_last:
  assumes "IsForged img" and "IsScalar img" and "wf_params 1 nD p" and "maskBuffer p = None"
    and "0 < bufferLength p" and "\<forall>v. v \<le> highest" and "positionFlag \<noteq> ''first''"
  shows "\<exists>i. last_occurrence_of_min (inBuffer p) i \<and>
             MinimumPixel (one_thread [p]) highest img msk positionFlag
               = Inr ((position p)[dimension p := position p ! dimension p + i])"
proof -
  let ?here = "\<lambda>ii. (position p)[dimension p := position p ! dimension p + ii]"
  let ?loop = "fold (\<lambda>ii (value, coord). if inBuffer p ! ii \<le> value then (inBuffer p ! ii, ?here ii)
                                           else (value, coord))
                    [0..<bufferLength p] (highest, replicate (length (position p)) 0)"
  have len: "length (inBuffer p) = bufferLength p" and thr: "thread p = 0"
    using assms(3) by (simp_all add: wf_params_def)
  obtain v c where st: "?loop = (v, c)" by (cases ?loop)
  from last_loop_min[where k = "bufferLength p" and inb = "inBuffer p" and here = ?here and highest = highest
      and ?coord0.0 = "replicate (length (position p)) 0"] assms(6)
  have "(bufferLength p = 0 \<and> v = highest \<and> c = replicate (length (position p)) 0) \<or>
        (\<exists>i<bufferLength p. v = inBuffer p ! i \<and> c = ?here i \<and>
           (\<forall>j<bufferLength p. inBuffer p ! i \<le> inBuffer p ! j) \<and>
           (\<forall>j<bufferLength p. i < j \<longrightarrow> inBuffer p ! i < inBuffer p ! j))"
    by (simp add: len st)
  then obtain i where i: "i < bufferLength p" "v = inBuffer p ! i" "c = ?here i"
    "\<forall>j<bufferLength p. inBuffer p ! i \<le> inBuffer p ! j"
    "\<forall>j<bufferLength p. i < j \<longrightarrow> inBuffer p ! i < inBuffer p ! j"
    using assms(5) by auto
  have occ: "last_occurrence_of_min (inBuffer p) i"
    using i(1,4,5) len by (auto simp: last_occurrence_of_min_def list_all_length)
  have "MinimumPixel (one_thread [p]) highest img msk positionFlag = Inr (?here i)"
    using assms(1,2,4,6,7) i(2,3) thr
    by (simp add: MinimumPixel_def one_thread_def dip__MinPixel_Filter_def st
        dip__MinPixel_SetNumberOfThreads_def dip__MaxMinPixel_new_def resize_def
        dip__MinPixel_GetResult_def)
  then show ?thesis using occ by blast
qed

text \<open>
  \<open>GetResult\<close> over the slots of the threads: with the strict comparison it returns
  the coordinate of the first slot that holds the largest (smallest) value, with the
  non-strict comparison that of the last such slot.
\<close>

lemma first_index_loop:
  fixes vs :: "'a::linorder list"
  assumes "1 \<le> k" "k \<le> length vs"
  shows "let index = fold (\<lambda>ii index. if vs ! ii > vs ! index then ii else index) [1..<k] 0
         in index < k \<and> (\<forall>j<k. vs ! j \<le> vs ! index) \<and> (\<forall>j<index. vs ! j < vs ! index)"
  using assms
proof (induction k rule: nat_induct_at_least)
  case base
  then show ?case by simp
next
  case (Suc k)
  define index where "index = fold (\<lambda>ii index. if vs ! ii > vs ! index then ii else index) [1..<k] 0"
  from Suc have inv: "index < k" "\<forall>j<k. vs ! j \<le> vs ! index" "\<forall>j<index. vs ! j < vs ! index"
    by (simp_all add: index_def Let_def)
  have step: "fold (\<lambda>ii index. if vs ! ii > vs ! index then ii else index) [1..<Suc k] 0
            = (if vs ! k > vs ! index then k else index)"
    using Suc.hyps by (simp add: index_def)
  have "let index = (if vs ! k > vs ! index then k else index)
        in index < Suc k \<and> (\<forall>j<Suc k. vs ! j \<le> vs ! index) \<and> (\<forall>j<index. vs ! j < vs ! index)"
  proof (cases "vs ! k > vs ! index")
    case True
    have "\<forall>j<Suc k. vs ! j \<le> vs ! k" "\<forall>j<k. vs ! j < vs ! k"
      using inv(2) True by (auto simp: less_Suc_eq)
    then show ?thesis using True by (simp add: Let_def)
  next
    case False
    then have "\<forall>j<Suc k. vs ! j \<le> vs ! index"
      using inv(2) by (auto simp: less_Suc_eq)
    then show ?thesis using False inv(1,3) by (simp add: Let_def)
  qed
  then show ?case unfolding step .
qed

lemma last_index_loop:
  fixes vs :: "'a::linorder list"
  assumes "1 \<le> k" "k \<le> length vs"
  shows "let index = fold (\<lambda>ii index. if vs ! ii \<ge> vs ! index then ii else index) [1..<k] 0
         in index < k \<and> (\<forall>j<k. vs ! j \<le> vs ! index) \<and> (\<forall>j<k. index < j \<longrightarrow> vs ! j < vs ! index)"
  using assms
proof (induction k rule: nat_induct_at_least)
  case base
  then show ?case by simp
next
  case (Suc k)
  define index where "index = fold (\<lambda>ii index. if vs ! ii \<ge> vs ! index then ii else index) [1..<k] 0"
  from Suc have inv: "index < k" "\<forall>j<k. vs ! j \<le> vs ! index" "\<forall>j<k. index < j \<longrightarrow> vs ! j < vs ! index"
    by (simp_all add: index_def Let_def)
  have step: "fold (\<lambda>ii index. if vs ! ii \<ge> vs ! index then ii else index) [1..<Suc k] 0
            = (if vs ! k \<ge> vs ! index then k else index)"
    using Suc.hyps by (simp add: index_def)
  have "let index = (if vs ! k \<ge> vs ! index then k else index)
        in index < Suc k \<and> (\<forall>j<Suc k. vs ! j \<le> vs ! index) \<and>
           (\<forall>j<Suc k. index < j \<longrightarrow> vs ! j < vs ! index)"
  proof (cases "vs ! k \<ge> vs ! index")
    case True
    have "\<forall>j<Suc k. vs ! j \<le> vs ! k"
      using inv(2) True by (auto simp: less_Suc_eq)
    then show ?thesis using True by (simp add: Let_def)
  next
    case False
    then have "\<forall>j<Suc k. vs ! j \<le> vs ! index" "\<forall>j<Suc k. index < j \<longrightarrow> vs ! j < vs ! index"
      using inv(2,3) by (auto simp: less_Suc_eq)
    then show ?thesis using False inv(1) by (simp add: Let_def)
  qed
  then show ?case unfolding step .
qed

lemma MaxPixel_GetResult_occurrence:
  assumes "0 < length (pix_coord s)" and "length (pix_value s) = length (pix_coord s)"
  shows "\<exists>i. (if pix_first s then first_occurrence_of_max (pix_value s) i
                              else last_occurrence_of_max (pix_value s) i) \<and>
             dip__MaxPixel_GetResult s = pix_coord s ! i"
proof (cases "pix_first s")
  case True
  from first_index_loop[of "length (pix_coord s)" "pix_value s"] assms
  show ?thesis
    using True
    by (auto simp: dip__MaxPixel_GetResult_def Let_def first_occurrence_of_max_def list_all_length)
next
  case False
  from last_index_loop[of "length (pix_coord s)" "pix_value s"] assms
  show ?thesis
    using False
    by (auto simp: dip__MaxPixel_GetResult_def Let_def last_occurrence_of_max_def list_all_length)
qed



lemma first_index_loop_min:
  fixes vs :: "'a::linorder list"
  assumes "1 \<le> k" "k \<le> length vs"
  shows "let index = fold (\<lambda>ii index. if vs ! ii < vs ! index then ii else index) [1..<k] 0
         in index < k \<and> (\<forall>j<k. vs ! index \<le> vs ! j) \<and> (\<forall>j<index. vs ! index < vs ! j)"
  using assms
proof (induction k rule: nat_induct_at_least)
  case base
  then show ?case by simp
next
  case (Suc k)
  define index where "index = fold (\<lambda>ii index. if vs ! ii < vs ! index then ii else index) [1..<k] 0"
  from Suc have inv: "index < k" "\<forall>j<k. vs ! index \<le> vs ! j" "\<forall>j<index. vs ! index < vs ! j"
    by (simp_all add: index_def Let_def)
  have step: "fold (\<lambda>ii index. if vs ! ii < vs ! index then ii else index) [1..<Suc k] 0
            = (if vs ! k < vs ! index then k else index)"
    using Suc.hyps by (simp add: index_def)
  have "let index = (if vs ! k < vs ! index then k else index)
        in index < Suc k \<and> (\<forall>j<Suc k. vs ! index \<le> vs ! j) \<and> (\<forall>j<index. vs ! index < vs ! j)"
  proof (cases "vs ! k < vs ! index")
    case True
    have "\<forall>j<Suc k. vs ! k \<le> vs ! j" "\<forall>j<k. vs ! k < vs ! j"
      using inv(2) True by (auto simp: less_Suc_eq)
    then show ?thesis using True by (simp add: Let_def)
  next
    case False
    then have "\<forall>j<Suc k. vs ! index \<le> vs ! j"
      using inv(2) by (auto simp: less_Suc_eq)
    then show ?thesis using False inv(1,3) by (simp add: Let_def)
  qed
  then show ?case unfolding step .
qed

lemma last_index_loop_min:
  fixes vs :: "'a::linorder list"
  assumes "1 \<le> k" "k \<le> length vs"
  shows "let index = fold (\<lambda>ii index. if vs ! ii \<le> vs ! index then ii else index) [1..<k] 0
         in index < k \<and> (\<forall>j<k. vs ! index \<le> vs ! j) \<and> (\<forall>j<k. index < j \<longrightarrow> vs ! index < vs ! j)"
  using assms
proof (induction k rule: nat_induct_at_least)
  case base
  then show ?case by simp
next
  case (Suc k)
  define index where "index = fold (\<lambda>ii index. if vs ! ii \<le> vs ! index then ii else index) [1..<k] 0"
  from Suc have inv: "index < k" "\<forall>j<k. vs ! index \<le> vs ! j" "\<forall>j<k. index < j \<longrightarrow> vs ! index < vs ! j"
    by (simp_all add: index_def Let_def)
  have step: "fold (\<lambda>ii index. if vs ! ii \<le> vs ! index then ii else index) [1..<Suc k] 0
            = (if vs ! k \<le> vs ! index then k else index)"
    using Suc.hyps by (simp add: index_def)
  have "let index = (if vs ! k \<le> vs ! index then k else index)
        in index < Suc k \<and> (\<forall>j<Suc k. vs ! index \<le> vs ! j) \<and>
           (\<forall>j<Suc k. index < j \<longrightarrow> vs ! index < vs ! j)"
  proof (cases "vs ! k \<le> vs ! index")
    case True
    have "\<forall>j<Suc k. vs ! k \<le> vs ! j"
      using inv(2) True by (auto simp: less_Suc_eq)
    then show ?thesis using True by (simp add: Let_def)
  next
    case False
    then have "\<forall>j<Suc k. vs ! index \<le> vs ! j" "\<forall>j<Suc k. index < j \<longrightarrow> vs ! index < vs ! j"
      using inv(2,3) by (auto simp: less_Suc_eq)
    then show ?thesis using False inv(1) by (simp add: Let_def)
  qed
  then show ?case unfolding step .
qed

lemma MinPixel_GetResult_occurrence:
  assumes "0 < length (pix_coord s)" and "length (pix_value s) = length (pix_coord s)"
  shows "\<exists>i. (if pix_first s then first_occurrence_of_min (pix_value s) i
                              else last_occurrence_of_min (pix_value s) i) \<and>
             dip__MinPixel_GetResult s = pix_coord s ! i"
proof (cases "pix_first s")
  case True
  from first_index_loop_min[of "length (pix_coord s)" "pix_value s"] assms
  show ?thesis
    using True
    by (auto simp: dip__MinPixel_GetResult_def Let_def first_occurrence_of_min_def list_all_length)
next
  case False
  from last_index_loop_min[of "length (pix_coord s)" "pix_value s"] assms
  show ?thesis
    using False
    by (auto simp: dip__MinPixel_GetResult_def Let_def last_occurrence_of_min_def list_all_length)
qed

lemmas eval_defs = MaximumPixel_def MinimumPixel_def IsForged_def IsScalar_def scalar_image_def scan_line_def
  one_thread_def no_mask_def dip__MaxPixel_GetResult_def dip__MinPixel_GetResult_def
  dip__MaxPixel_Filter_def dip__MinPixel_Filter_def dip__MaxPixel_SetNumberOfThreads_def
  dip__MinPixel_SetNumberOfThreads_def dip__MaxMinPixel_new_def resize_def

lemma MaximumPixel_tie_example:
  "MaximumPixel (one_thread [scan_line 0 [0] [3, 5, 5, 2 :: uint8] None]) 0
     (scalar_image [4] (\<lambda>c. [3, 5, 5, 2 :: uint8] ! (c ! 0))) no_mask ''first'' = Inr [1] \<and>
   MaximumPixel (one_thread [scan_line 0 [0] [3, 5, 5, 2 :: uint8] None]) 0
     (scalar_image [4] (\<lambda>c. [3, 5, 5, 2 :: uint8] ! (c ! 0))) no_mask ''last'' = Inr [2]"
  by (simp add: eval_defs)

lemma MinimumPixel_tie_example:
  "MinimumPixel (one_thread [scan_line 0 [0] [5, 3, 3, 7 :: uint8] None]) 255
     (scalar_image [4] (\<lambda>c. [5, 3, 3, 7 :: uint8] ! (c ! 0))) no_mask ''first'' = Inr [1] \<and>
   MinimumPixel (one_thread [scan_line 0 [0] [5, 3, 3, 7 :: uint8] None]) 255
     (scalar_image [4] (\<lambda>c. [5, 3, 3, 7 :: uint8] ! (c ! 0))) no_mask ''last'' = Inr [2]"
  by (simp add: eval_defs)

text \<open>
  Claim C2, at the inputs where the code departs from it. The running value of a line
  and the slot of a thread start at the lowest (highest) value of the sample type and
  nothing records whether a sample was taken. With the strict comparison of
  \<open>first\<close>, samples equal to that value are never taken: on an image of three zeros of
  type \<open>uint8\<close> the maximum is at coordinate \<open>[0]\<close>, and \<open>MaximumPixel\<close> returns
  the empty coordinate array of the untouched slot; likewise \<open>MinimumPixel\<close> on three
  samples 255. With the non-strict comparison, a line whose samples are all masked
  out ties with such a slot and overwrites its coordinate with zeros: on a 2 by 2 image
  of zeros whose mask selects the row \<open>y = 0\<close>, the last maximum is at \<open>[1, 0]\<close> and
  \<open>MaximumPixel\<close> returns \<open>[0, 0]\<close>.
\<close>

theorem MaximumPixel_extreme_at_initial_value:
  "MaximumPixel (one_thread [scan_line 0 [0] [0, 0, 0 :: uint8] None]) 0
     (scalar_image [3] (\<lambda>c. 0 :: uint8)) no_mask ''first'' = Inr [] \<and>
   MinimumPixel (one_thread [scan_line 0 [0] [255, 255, 255 :: uint8] None]) 255
     (scalar_image [3] (\<lambda>c. 255 :: uint8)) no_mask ''first'' = Inr [] \<and>
   MaximumPixel (one_thread [scan_line 0 [0, 0] [0, 0 :: uint8] (Some [True, True]),
                             scan_line 0 [0, 1] [0, 0] (Some [False, False])]) 0
     (scalar_image [2, 2] (\<lambda>c. 0 :: uint8)) (scalar_image [2, 2] (\<lambda>c. c ! 1 = 0)) ''last'' = Inr [0, 0]"
  by (simp add: eval_defs)

text \<open>
  Claim C7, at the inputs where the code departs from it, all with \<open>first = false\<close>.
  A slot holds the value 0 of type \<open>uint8\<close>, found at coordinate \<open>[1, 0]\<close>. A line of
  which no sample is taken, merged in \<open>Filter\<close>, replaces the coordinate by \<open>[0, 0]\<close>;
  an untouched slot after it, merged in \<open>GetResult\<close>, makes the result the empty
  coordinate array. The same holds for the minimum at the value 255.
\<close>

theorem MaxPixel_unused_slot_not_neutral:
  "pix_coord (dip__MaxPixel_Filter 0 (scan_line 0 [0, 1] [0, 0 :: uint8] (Some [False, False]))
                \<lparr> pix_coord = [[1, 0]], pix_value = [0], pix_first = False \<rparr>) = [[0, 0]] \<and>
   dip__MaxPixel_GetResult \<lparr> pix_coord = [[1, 0], []], pix_value = [0, 0 :: uint8], pix_first = False \<rparr> = [] \<and>
   pix_coord (dip__MinPixel_Filter 255 (scan_line 0 [0, 1] [255, 255 :: uint8] (Some [False, False]))
                \<lparr> pix_coord = [[1, 0]], pix_value = [255], pix_first = False \<rparr>) = [[0, 0]] \<and>
   dip__MinPixel_GetResult \<lparr> pix_coord = [[1, 0], []], pix_value = [255, 255 :: uint8], pix_first = False \<rparr> = []"
  by (simp add: eval_defs)

text \<open>
  Claim C10. A position flag other than the string \<open>first\<close> makes \<open>MaximumPixel\<close>
  and \<open>MinimumPixel\<close> return what they return for the flag \<open>last\<close>: on a forged
  scalar image whose scan succeeds, the result of the filter constructed with
  \<open>first = false\<close>. The flag itself raises no error.
\<close>

theorem positionFlag_not_validated:
  assumes "positionFlag \<noteq> ''first''"
  shows "MaximumPixel scan lowest img msk positionFlag = MaximumPixel scan lowest img msk ''last'' \<and>
         MinimumPixel scan highest img msk positionFlag = MinimumPixel scan highest img msk ''last'' \<and>
         (IsForged img \<and> IsScalar img \<and> scan img msk = Inr (threads, lines) \<longrightarrow>
            MaximumPixel scan lowest img msk positionFlag =
              Inr (dip__MaxPixel_GetResult
                     (fold (dip__MaxPixel_Filter lowest) lines
                        (dip__MaxPixel_SetNumberOfThreads lowest threads (dip__MaxMinPixel_new False)))) \<and>
            MinimumPixel scan highest img msk positionFlag =
              Inr (dip__MinPixel_GetResult
                     (fold (dip__MinPixel_Filter highest) lines
                        (dip__MinPixel_SetNumberOfThreads highest threads (dip__MaxMinPixel_new False)))))"
  using assms by (simp add: MaximumPixel_def MinimumPixel_def)

theorem positionFlag_not_validated_witness:
  "''frist'' \<noteq> ''first'' \<and>
   IsForged (scalar_image [4] (\<lambda>c. [3, 5, 5, 2 :: uint8] ! (c ! 0))) \<and>
   IsScalar (scalar_image [4] (\<lambda>c. [3, 5, 5, 2 :: uint8] ! (c ! 0))) \<and>
   MaximumPixel (one_thread [scan_line 0 [0] [3, 5, 5, 2 :: uint8] None]) 0
     (scalar_image [4] (\<lambda>c. [3, 5, 5, 2 :: uint8] ! (c ! 0))) no_mask ''frist'' = Inr [2] \<and>
   MaximumPixel (one_thread [scan_line 0 [0] [3, 5, 5, 2 :: uint8] None]) 0
     (scalar_image [4] (\<lambda>c. [3, 5, 5, 2 :: uint8] ! (c ! 0))) no_mask ''last'' = Inr [2] \<and>
   MinimumPixel (one_thread [scan_line 0 [0] [5, 3, 3, 7 :: uint8] None]) 255
     (scalar_image [4] (\<lambda>c. [5, 3, 3, 7 :: uint8] ! (c ! 0))) no_mask ''frist'' = Inr [2] \<and>
   MinimumPixel (one_thread [scan_line 0 [0] [5, 3, 3, 7 :: uint8] None]) 255
     (scalar_image [4] (\<lambda>c. [5, 3, 3, 7 :: uint8] ! (c ! 0))) no_mask ''last'' = Inr [2]"
proof -
  let ?mx = "one_thread [scan_line 0 [0] [3, 5, 5, 2 :: uint8] None] :: (uint8, uint8) scan_driver"
  let ?mn = "one_thread [scan_line 0 [0] [5, 3, 3, 7 :: uint8] None] :: (uint8, uint8) scan_driver"
  let ?imx = "scalar_image [4] (\<lambda>c. [3, 5, 5, 2 :: uint8] ! (c ! 0))"
  let ?imn = "scalar_image [4] (\<lambda>c. [5, 3, 3, 7 :: uint8] ! (c ! 0))"
  have ne: "''frist'' \<noteq> ''first''" by simp
  have fx: "IsForged ?imx \<and> IsScalar ?imx \<and> ?mx ?imx no_mask = Inr (1, [scan_line 0 [0] [3, 5, 5, 2] None])"
    by (simp add: IsForged_def IsScalar_def scalar_image_def one_thread_def)
  have fn: "IsForged ?imn \<and> IsScalar ?imn \<and> ?mn ?imn no_mask = Inr (1, [scan_line 0 [0] [5, 3, 3, 7] None])"
    by (simp add: IsForged_def IsScalar_def scalar_image_def one_thread_def)
  note a = positionFlag_not_validated[OF ne, where scan = ?mx and lowest = 0 and img = ?imx and msk = no_mask]
  note b = positionFlag_not_validated[OF ne, where scan = ?mn and highest = 255 and img = ?imn and msk = no_mask]
  have mx: "MaximumPixel ?mx 0 ?imx no_mask ''frist'' = Inr [2]"
    using a[THEN conjunct2, THEN conjunct2, rule_format, OF fx, THEN conjunct1]
    by (simp add: scan_line_def dip__MaxPixel_GetResult_def dip__MaxPixel_Filter_def
        dip__MaxPixel_SetNumberOfThreads_def dip__MaxMinPixel_new_def resize_def)
  have mn: "MinimumPixel ?mn 255 ?imn no_mask ''frist'' = Inr [2]"
    using b[THEN conjunct2, THEN conjunct2, rule_format, OF fn, THEN conjunct2]
    by (simp add: scan_line_def dip__MinPixel_GetResult_def dip__MinPixel_Filter_def
        dip__MinPixel_SetNumberOfThreads_def dip__MaxMinPixel_new_def resize_def)
  have mx': "MaximumPixel ?mx 0 ?imx no_mask ''last'' = Inr [2]"
    using a[THEN conjunct1] mx by simp
  have mn': "MinimumPixel ?mn 255 ?imn no_mask ''last'' = Inr [2]"
    using b[THEN conjunct2, THEN conjunct1] mn by simp
  show ?thesis using ne fx fn mx mn mx' mn' by (simp only:) simp
qed

section \<open>Precondition checks\<close>

lemmas operation_defs = Count_def MaximumPixel_def MinimumPixel_def CumulativeSum_def MaximumAndMinimum_def
  SampleStatistics_def Covariance_def CenterOfMass_def Moments_def

text \<open>
  Claim C5. Every statistics function checks its preconditions first. For an input
  image that is not forged each of the nine functions throws \<open>IMAGE_NOT_FORGED\<close>;
  for a forged image that is not scalar, \<open>Count\<close>, \<open>MaximumPixel\<close>,
  \<open>MinimumPixel\<close>, \<open>CenterOfMass\<close> and \<open>Moments\<close> throw \<open>IMAGE_NOT_SCALAR\<close>;
  for a forged image with no dimensions \<open>CumulativeSum\<close> throws
  \<open>DIMENSIONALITY_NOT_SUPPORTED\<close>. The outcome is the same whatever the scan, the
  selection and the separable pass would do, so none of them has run, and
  \<open>CumulativeSum\<close> leaves its output image as it was.
\<close>

theorem precondition_errors_before_scan:
  "(\<not> IsForged img \<longrightarrow>
      Count scan_bin img msk = Inl IMAGE_NOT_FORGED \<and>
      MaximumPixel scan_max lowest img msk positionFlag = Inl IMAGE_NOT_FORGED \<and>
      MinimumPixel scan_min highest img msk positionFlag = Inl IMAGE_NOT_FORGED \<and>
      CumulativeSum select separable img msk out process = (Some IMAGE_NOT_FORGED, out) \<and>
      MaximumAndMinimum scan_mm init img msk = Inl IMAGE_NOT_FORGED \<and>
      SampleStatistics run_stat img msk = Inl IMAGE_NOT_FORGED \<and>
      Covariance compare run_cov img other msk = Inl IMAGE_NOT_FORGED \<and>
      Covariance compare run_cov other img msk = Inl IMAGE_NOT_FORGED \<and>
      CenterOfMass scan_com img msk = Inl IMAGE_NOT_FORGED \<and>
      Moments run_mom img msk = Inl IMAGE_NOT_FORGED) \<and>
   (IsForged img \<and> \<not> IsScalar img \<longrightarrow>
      Count scan_bin img msk = Inl IMAGE_NOT_SCALAR \<and>
      MaximumPixel scan_max lowest img msk positionFlag = Inl IMAGE_NOT_SCALAR \<and>
      MinimumPixel scan_min highest img msk positionFlag = Inl IMAGE_NOT_SCALAR \<and>
      CenterOfMass scan_com img msk = Inl IMAGE_NOT_SCALAR \<and>
      Moments run_mom img msk = Inl IMAGE_NOT_SCALAR) \<and>
   (IsForged img \<and> Dimensionality img < 1 \<longrightarrow>
      CumulativeSum select separable img msk out process = (Some DIMENSIONALITY_NOT_SUPPORTED, out))"
  by (simp add: operation_defs)

theorem precondition_errors_before_scan_witness:
  "\<not> IsForged raw_image \<and>
   Count (one_thread [scan_line 0 [0] [True, True] None]) raw_image no_mask = Inl IMAGE_NOT_FORGED \<and>
   MaximumPixel (one_thread [scan_line 0 [0] [1, 1 :: real] None]) 0 raw_image no_mask ''first''
     = Inl IMAGE_NOT_FORGED \<and>
   MinimumPixel (one_thread [scan_line 0 [0] [1, 1 :: real] None]) 2 raw_image no_mask ''first''
     = Inl IMAGE_NOT_FORGED \<and>
   CumulativeSum Select Separable raw_image no_mask zero_dim_image [True]
     = (Some IMAGE_NOT_FORGED, zero_dim_image) \<and>
   MaximumAndMinimum (one_thread [scan_line 0 [0] [1, 1 :: real] None]) \<lparr> acc_min = 2, acc_max = 0 \<rparr>
     raw_image no_mask = Inl IMAGE_NOT_FORGED \<and>
   SampleStatistics (\<lambda>i m. Inr (1 :: real)) raw_image no_mask = Inl IMAGE_NOT_FORGED \<and>
   Covariance (\<lambda>a b. None) (\<lambda>a b m. Inr (0 :: real)) raw_image tensor_image no_mask = Inl IMAGE_NOT_FORGED \<and>
   Covariance (\<lambda>a b. None) (\<lambda>a b m. Inr (0 :: real)) tensor_image raw_image no_mask = Inl IMAGE_NOT_FORGED \<and>
   CenterOfMass (one_thread [scan_line 0 [0] [1, 1] None]) raw_image no_mask = Inl IMAGE_NOT_FORGED \<and>
   Moments (\<lambda>i m. Inr (1 :: real)) raw_image no_mask = Inl IMAGE_NOT_FORGED \<and>
   IsForged tensor_image \<and> \<not> IsScalar tensor_image \<and>
   Count (one_thread [scan_line 0 [0] [True, True] None]) tensor_image no_mask = Inl IMAGE_NOT_SCALAR \<and>
   MaximumPixel (one_thread [scan_line 0 [0] [1, 1 :: real] None]) 0 tensor_image no_mask ''first''
     = Inl IMAGE_NOT_SCALAR \<and>
   MinimumPixel (one_thread [scan_line 0 [0] [1, 1 :: real] None]) 2 tensor_image no_mask ''first''
     = Inl IMAGE_NOT_SCALAR \<and>
   CenterOfMass (one_thread [scan_line 0 [0] [1, 1] None]) tensor_image no_mask = Inl IMAGE_NOT_SCALAR \<and>
   Moments (\<lambda>i m. Inr (1 :: real)) tensor_image no_mask = Inl IMAGE_NOT_SCALAR \<and>
   IsForged zero_dim_image \<and> Dimensionality zero_dim_image < 1 \<and>
   CumulativeSum Select Separable zero_dim_image no_mask raw_image []
     = (Some DIMENSIONALITY_NOT_SUPPORTED, raw_image)"
proof -
  have r: "\<not> IsForged raw_image"
    by (simp add: IsForged_def raw_image_def)
  have t: "IsForged tensor_image \<and> \<not> IsScalar tensor_image"
    by (simp add: IsForged_def IsScalar_def tensor_image_def)
  have z: "IsForged zero_dim_image \<and> Dimensionality zero_dim_image < 1"
    by (simp add: IsForged_def Dimensionality_def zero_dim_image_def)
  note a = precondition_errors_before_scan[where img = raw_image and msk = no_mask and other = tensor_image
      and out = zero_dim_image and process = "[True]" and select = Select and separable = Separable
      and scan_bin = "one_thread [scan_line 0 [0] [True, True] None]"
      and scan_max = "one_thread [scan_line 0 [0] [1, 1 :: real] None]" and lowest = 0
      and scan_min = "one_thread [scan_line 0 [0] [1, 1 :: real] None]" and highest = 2
      and scan_mm = "one_thread [scan_line 0 [0] [1, 1 :: real] None]" and init = "\<lparr> acc_min = 2, acc_max = 0 \<rparr>"
      and scan_com = "one_thread [scan_line 0 [0] [1, 1] None]" and positionFlag = "''first''"
      and run_stat = "\<lambda>i m. Inr (1 :: real)" and run_mom = "\<lambda>i m. Inr (1 :: real)"
      and compare = "\<lambda>a b. None" and run_cov = "\<lambda>a b m. Inr (0 :: real)", THEN conjunct1, rule_format, OF r]
  note b = precondition_errors_before_scan[where img = tensor_image and msk = no_mask
      and scan_bin = "one_thread [scan_line 0 [0] [True, True] None]"
      and scan_max = "one_thread [scan_line 0 [0] [1, 1 :: real] None]" and lowest = 0
      and scan_min = "one_thread [scan_line 0 [0] [1, 1 :: real] None]" and highest = 2
      and scan_com = "one_thread [scan_line 0 [0] [1, 1] None]" and positionFlag = "''first''"
      and run_mom = "\<lambda>i m. Inr (1 :: real)", THEN conjunct2, THEN conjunct1, rule_format, OF t]
  note c = precondition_errors_before_scan[where img = zero_dim_image and msk = no_mask
      and out = raw_image and process = "[]" and select = Select and separable = Separable,
      THEN conjunct2, THEN conjunct2, rule_format, OF z]
  show ?thesis using r t z a b c by (simp only:) simp
qed

section \<open>CumulativeSum\<close>

lemma CumSum_loop:
  fixes inb :: "'a::{zero,plus} list"
  assumes "n \<le> length inb" "n \<le> length out"
  shows "fold (\<lambda>ii (sum, out). let sum = sum + inb ! ii in (sum, out[ii := sum])) [0..<n] (0, out)
       = (foldl (+) 0 (take n inb), map (\<lambda>i. foldl (+) 0 (take (Suc i) inb)) [0..<n] @ drop n out)"
  using assms
proof (induction n)
  case 0
  then show ?case by simp
next
  case (Suc n)
  have inb: "take (Suc n) inb = take n inb @ [inb ! n]"
    using Suc.prems by (simp add: take_Suc_conv_app_nth)
  have out: "drop n out = out ! n # drop (Suc n) out"
    using Suc.prems by (simp add: Cons_nth_drop_Suc)
  show ?case
    using Suc by (simp add: inb out list_update_append Let_def)
qed

lemma CumSumFilter_Filter_nth:
  assumes "length (sep_inBuffer p) = sep_length p" "length (sep_outBuffer p) = sep_length p"
    and "i < sep_length p"
  shows "CumSumFilter_Filter p ! i = foldl (+) 0 (take (Suc i) (sep_inBuffer p))"
  using assms by (simp add: CumSumFilter_Filter_def CumSum_loop)

lemma one_flagged_dimension:
  assumes "d < n" "length process = n" "\<forall>k<length process. process ! k = (k = d)"
  shows "filter (\<lambda>k. process ! k) [0..<n] = [d]"
proof -
  have "filter (\<lambda>k. process ! k) [0..<n] = filter (\<lambda>k. k = d) [0..<n]"
    using assms by (intro filter_cong) auto
  also have "\<dots> = [d]"
    using assms(1) by (induction n) auto
  finally show ?thesis .
qed

lemma in_image_nth: "in_image img c \<Longrightarrow> d < length (sizes img) \<Longrightarrow> c ! d < sizes img ! d"
  by (simp add: in_image_def list_all2_conv_all_nth)

lemma Separable_pass_CumSum:
  assumes "in_image img c" "d < length (sizes img)"
  shows "pixels (Separable_pass CumSumFilter_Filter d img) c
       = foldl (+) 0 (map (\<lambda>j. pixels img (c[d := j])) [0..<Suc (c ! d)])"
proof -
  have lt: "c ! d < sizes img ! d" using assms by (rule in_image_nth)
  have "take (Suc (c ! d)) (image_line img d c) = map (\<lambda>j. pixels img (c[d := j])) [0..<Suc (c ! d)]"
    using lt unfolding image_line_def take_map by (simp only: take_upt add_0 Suc_leI)
  then show ?thesis
    using assms(1) lt by (simp add: Separable_pass_def CumSumFilter_Filter_nth image_line_def)
qed

lemma in_image_Select: "in_image (snd (Select img z msk out)) c = in_image img c"
  by (simp add: Select_def in_image_def)

text \<open>
  Claim C3. Let one dimension \<open>d\<close> be flagged for processing and let \<open>c\<close> be a
  coordinate of the forged image. Without a mask, the output sample at \<open>c\<close> is the sum,
  from 0 and from left to right, of the input samples along dimension \<open>d\<close> at the
  positions up to and including \<open>c\<close>. With a mask, the selection step runs first and
  puts 0 where the mask is false, the separable pass runs on its result, and the output
  sample at \<open>c\<close> is the running sum of the selected samples.
\<close>

theorem CumulativeSum_running_sum:
  assumes "IsForged img" and "d < Dimensionality img" and "length process = Dimensionality img"
    and "\<forall>k<length process. process ! k = (k = d)" and "in_image img c"
  shows "(\<not> IsForged msk \<longrightarrow>
            fst (CumulativeSum Select Separable img msk out process) = None \<and>
            pixels (snd (CumulativeSum Select Separable img msk out process)) c
              = foldl (+) 0 (map (\<lambda>j. pixels img (c[d := j])) [0..<Suc (c ! d)])) \<and>
         (IsForged msk \<and> sizes msk = sizes img \<longrightarrow>
            CumulativeSum Select Separable img msk out process
              = Separable (snd (Select img zero_image msk out)) (snd (Select img zero_image msk out))
                  process CumSumFilter_Filter \<and>
            (\<forall>c'. pixels (snd (Select img zero_image msk out)) c'
                     = (if pixels msk c' then pixels img c' else 0)) \<and>
            fst (CumulativeSum Select Separable img msk out process) = None \<and>
            pixels (snd (CumulativeSum Select Separable img msk out process)) c
              = foldl (+) 0 (map (\<lambda>j. if pixels msk (c[d := j]) then pixels img (c[d := j]) else 0)
                               [0..<Suc (c ! d)]))"
proof -
  let ?sel = "snd (Select img zero_image msk out)"
  have dims: "filter (\<lambda>k. process ! k) [0..<Dimensionality img] = [d]"
    using assms(2-4) by (rule one_flagged_dimension)
  have d: "d < length (sizes img)"
    using assms(2) by (simp add: Dimensionality_def)
  have dim1: "\<not> Dimensionality img < 1"
    using assms(2) by simp
  have plain: "pixels (snd (Separable img out process CumSumFilter_Filter)) c
      = foldl (+) 0 (map (\<lambda>j. pixels img (c[d := j])) [0..<Suc (c ! d)])"
    using Separable_pass_CumSum[OF assms(5) d] by (simp add: Separable_def dims)
  have sel_sizes: "sizes ?sel = sizes img" "Dimensionality ?sel = Dimensionality img"
    by (simp_all add: Select_def Dimensionality_def)
  have sel_pix: "pixels ?sel c' = (if pixels msk c' then pixels img c' else 0)" for c'
    by (simp add: Select_def zero_image_def)
  have sel_in: "in_image ?sel c"
    using assms(5) by (simp add: in_image_Select)
  have masked: "pixels (snd (Separable ?sel ?sel process CumSumFilter_Filter)) c
      = foldl (+) 0 (map (\<lambda>j. if pixels msk (c[d := j]) then pixels img (c[d := j]) else 0)
                       [0..<Suc (c ! d)])"
    using Separable_pass_CumSum[OF sel_in, of d] d
    by (simp add: Separable_def sel_sizes dims sel_pix)
  have run_masked: "CumulativeSum Select Separable img msk out process
      = Separable ?sel ?sel process CumSumFilter_Filter" if "IsForged msk"
    using that assms(1) dim1 by (simp add: CumulativeSum_def Select_def)
  have run_plain: "CumulativeSum Select Separable img msk out process
      = Separable img out process CumSumFilter_Filter" if "\<not> IsForged msk"
    using that assms(1) dim1 by (simp add: CumulativeSum_def)
  show ?thesis
    using plain masked run_masked run_plain sel_pix by (simp add: Separable_def)
qed

theorem CumulativeSum_running_sum_witness:
  "IsForged cumsum_image \<and> 0 < Dimensionality cumsum_image \<and>
   length [True] = Dimensionality cumsum_image \<and>
   list_all (in_image cumsum_image) [[0], [1], [2], [3]] \<and>
   \<not> IsForged no_mask \<and> IsForged cumsum_mask \<and> sizes cumsum_mask = sizes cumsum_image \<and>
   fst (CumulativeSum Select Separable cumsum_image no_mask zero_image [True]) = None \<and>
   map (pixels (snd (CumulativeSum Select Separable cumsum_image no_mask zero_image [True])))
       [[0], [1], [2], [3]] = [1, 3, 6, 10] \<and>
   fst (CumulativeSum Select Separable cumsum_image cumsum_mask zero_image [True]) = None \<and>
   map (pixels (snd (CumulativeSum Select Separable cumsum_image cumsum_mask zero_image [True])))
       [[0], [1], [2], [3]] = [1, 1, 4, 8]"
proof -
  have h: "IsForged cumsum_image" "0 < Dimensionality cumsum_image"
    "length [True] = Dimensionality cumsum_image" "\<forall>k<length [True]. [True] ! k = (k = 0)"
    by (simp_all add: cumsum_image_def scalar_image_def IsForged_def Dimensionality_def)
  have c: "in_image cumsum_image [0]" "in_image cumsum_image [1]" "in_image cumsum_image [2]"
    "in_image cumsum_image [3]"
    by (simp_all add: cumsum_image_def scalar_image_def in_image_def)
  have m: "\<not> IsForged no_mask" "IsForged cumsum_mask" "sizes cumsum_mask = sizes cumsum_image"
    by (simp_all add: no_mask_def cumsum_mask_def cumsum_image_def scalar_image_def IsForged_def)
  note plain = CumulativeSum_running_sum[OF h, where msk = no_mask and out = zero_image,
      THEN conjunct1, rule_format, OF _ m(1)]
  note masked = CumulativeSum_running_sum[OF h, where msk = cumsum_mask and out = zero_image,
      THEN conjunct2, rule_format, OF _ conjI[OF m(2,3)], THEN conjunct2, THEN conjunct2]
  have px: "pixels cumsum_image = (\<lambda>c. [1, 2, 3, 4] ! (c ! 0))"
    "pixels cumsum_mask = (\<lambda>c. [True, False, True, True] ! (c ! 0))"
    by (simp_all add: cumsum_image_def cumsum_mask_def scalar_image_def)
  have p: "map (pixels (snd (CumulativeSum Select Separable cumsum_image no_mask zero_image [True])))
       [[0], [1], [2], [3]] = [1, 3, 6, 10]"
    using plain[OF c(1)] plain[OF c(2)] plain[OF c(3)] plain[OF c(4)]
    by (simp add: px upt_conv_Cons)
  have q: "map (pixels (snd (CumulativeSum Select Separable cumsum_image cumsum_mask zero_image [True])))
       [[0], [1], [2], [3]] = [1, 1, 4, 8]"
    using masked[OF c(1)] masked[OF c(2)] masked[OF c(3)] masked[OF c(4)]
    by (simp add: px upt_conv_Cons)
  show ?thesis
    using h(1-3) c m p q plain[OF c(1)] masked[OF c(1)] by simp
qed

section \<open>MaximumAndMinimum\<close>

lemma MinMax_Push2_eq: "MinMax_Push2 x y acc = MinMax_Push y (MinMax_Push x acc)"
  by (simp add: MinMax_Push2_def MinMax_Push_def min.assoc max.assoc)

lemma uint_pred_pos: "0 < n \<Longrightarrow> uint_pred n = n - 1"
  by (simp add: uint_pred_def)

lemma pairs_then_last:
  assumes "ii \<le> length inb" "0 < length inb"
  shows "\<exists>jj vars'. MaximumAndMinimum_pairs inb (length inb - 1) ii vars = Some (jj, vars') \<and>
           jj \<le> length inb \<and>
           (if jj < length inb then MinMax_Push (inb ! jj) vars' else vars')
             = fold (\<lambda>k. MinMax_Push (inb ! k)) [ii..<length inb] vars"
  using assms
proof (induction inb "length inb - 1" ii vars rule: MaximumAndMinimum_pairs.induct)
  case (1 inb ii vars)
  show ?case
  proof (cases "ii < length inb - 1")
    case True
    then have in_range: "ii + 1 < length inb" by simp
    have le: "ii + 2 \<le> length inb" using True by simp
    from "1.hyps"[OF True in_range le "1.prems"(2)]
    obtain jj vars' where rec:
      "MaximumAndMinimum_pairs inb (length inb - 1) (ii + 2)
         (MinMax_Push2 (inb ! ii) (inb ! (ii + 1)) vars) = Some (jj, vars')"
      "jj \<le> length inb"
      "(if jj < length inb then MinMax_Push (inb ! jj) vars' else vars')
         = fold (\<lambda>k. MinMax_Push (inb ! k)) [ii + 2..<length inb]
             (MinMax_Push2 (inb ! ii) (inb ! (ii + 1)) vars)"
      by blast
    have upt: "[ii..<length inb] = ii # (ii + 1) # [ii + 2..<length inb]"
      using in_range by (simp add: upt_conv_Cons)
    have call: "MaximumAndMinimum_pairs inb (length inb - 1) ii vars = Some (jj, vars')"
      using True in_range rec(1) by (subst MaximumAndMinimum_pairs.simps) simp
    show ?thesis
      using call rec(2,3) by (simp add: upt MinMax_Push2_eq)
  next
    case False
    then have stop: "MaximumAndMinimum_pairs inb (length inb - 1) ii vars = Some (ii, vars)"
      by (subst MaximumAndMinimum_pairs.simps) simp
    have "ii = length inb - 1 \<or> ii = length inb"
      using False "1.prems" by auto
    then show ?thesis
    proof
      assume last: "ii = length inb - 1"
      then have "[ii..<length inb] = [ii]"
        using "1.prems"(2) by (simp add: upt_conv_Cons)
      then show ?thesis using stop last "1.prems"(2) by simp
    next
      assume "ii = length inb"
      then show ?thesis using stop by simp
    qed
  qed
qed

lemma Filter_unrolled:
  assumes "wf_params threads nD p" and "maskBuffer p = None" and "0 < bufferLength p"
  shows "dip__MaximumAndMinimum_Filter init p s = Some (MaximumAndMinimum_Filter_one_at_a_time init p s)"
proof -
  have len: "length (inBuffer p) = bufferLength p"
    using assms(1) by (simp add: wf_params_def)
  then have pos: "0 < length (inBuffer p)" using assms(3) by simp
  from pairs_then_last[OF le0 pos, of init]
  obtain jj vars' where run:
    "MaximumAndMinimum_pairs (inBuffer p) (length (inBuffer p) - 1) 0 init = Some (jj, vars')"
    "jj \<le> length (inBuffer p)"
    "(if jj < length (inBuffer p) then MinMax_Push (inBuffer p ! jj) vars' else vars')
       = fold (\<lambda>k. MinMax_Push (inBuffer p ! k)) [0..<length (inBuffer p)] init"
    by blast
  have bound: "uint_pred (bufferLength p) = length (inBuffer p) - 1"
    using assms(3) len by (simp add: uint_pred_pos)
  have vars: "(case MaximumAndMinimum_pairs (inBuffer p) (uint_pred (bufferLength p)) 0 init of
                 None \<Rightarrow> None
               | Some (ii, vars) \<Rightarrow>
                   if ii < bufferLength p
                   then (if ii < length (inBuffer p) then Some (MinMax_Push (inBuffer p ! ii) vars) else None)
                   else Some vars)
              = Some (fold (\<lambda>ii vars. MinMax_Push (inBuffer p ! ii) vars) [0..<bufferLength p] init)"
    unfolding bound run(1) option.case prod.case
  proof (cases "jj < length (inBuffer p)")
    case True
    then show "(if jj < bufferLength p
                then if jj < length (inBuffer p) then Some (MinMax_Push (inBuffer p ! jj) vars') else None
                else Some vars')
               = Some (fold (\<lambda>ii vars. MinMax_Push (inBuffer p ! ii) vars) [0..<bufferLength p] init)"
      using run(3) len by simp
  next
    case False
    then show "(if jj < bufferLength p
                then if jj < length (inBuffer p) then Some (MinMax_Push (inBuffer p ! jj) vars') else None
                else Some vars')
               = Some (fold (\<lambda>ii vars. MinMax_Push (inBuffer p ! ii) vars) [0..<bufferLength p] init)"
      using run(3) len by simp
  qed
  show ?thesis
    unfolding dip__MaximumAndMinimum_Filter_def MaximumAndMinimum_Filter_one_at_a_time_def Let_def
    by (simp only: assms(2) option.case vars)
qed

lemma Filter_unrolled_lines:
  assumes "\<forall>p\<in>set lines. wf_params threads nD p \<and> maskBuffer p = None \<and> 0 < bufferLength p"
  shows "fold (\<lambda>p s. Option.bind s (dip__MaximumAndMinimum_Filter init p)) lines (Some s)
       = Some (fold (MaximumAndMinimum_Filter_one_at_a_time init) lines s)"
  using assms
  by (induction lines arbitrary: s) (simp_all add: Filter_unrolled[where threads = threads and nD = nD])

text \<open>
  The bound \<open>bufferLength - 1\<close> is why the line must not be empty: on a line of no
  samples it wraps around and the loop reads past the buffer.
\<close>

lemma Filter_unrolled_empty_line:
  "dip__MaximumAndMinimum_Filter init (scan_line t pos [] None) s = None"
  by (simp add: dip__MaximumAndMinimum_Filter_def scan_line_def uint_pred_def
      MaximumAndMinimum_pairs.simps[of "[]"])

text \<open>
  Claim C8. On every line without a mask that has at least one sample, as every line
  of a forged image has, the \<open>Filter\<close> with the loop over pairs of samples and the
  single last sample of an odd line returns, and its result is the state that the loop
  over single samples produces; hence over any sequence of such lines the merged
  accumulator of \<open>GetResult\<close>, minimum and maximum, is the same.
\<close>

theorem unrolled_scan_equals_simple_scan:
  assumes "\<forall>p\<in>set lines. wf_params threads nD p \<and> maskBuffer p = None \<and> 0 < bufferLength p"
  shows "(\<forall>p\<in>set lines. \<forall>s. dip__MaximumAndMinimum_Filter init p s
                               = Some (MaximumAndMinimum_Filter_one_at_a_time init p s)) \<and>
         map_option dip__MaximumAndMinimum_GetResult
           (fold (\<lambda>p s. Option.bind s (dip__MaximumAndMinimum_Filter init p)) lines (Some s0))
         = Some (dip__MaximumAndMinimum_GetResult
                   (fold (MaximumAndMinimum_Filter_one_at_a_time init) lines s0))"
proof -
  have "dip__MaximumAndMinimum_Filter init p s = Some (MaximumAndMinimum_Filter_one_at_a_time init p s)"
    if "p \<in> set lines" for p s
    using assms that by (intro Filter_unrolled[where threads = threads and nD = nD]) auto
  then show ?thesis
    by (simp only: Filter_unrolled_lines[OF assms] option.map) simp
qed

theorem unrolled_scan_equals_simple_scan_witness:
  "list_all (\<lambda>p. wf_params 2 2 p \<and> maskBuffer p = None \<and> 0 < bufferLength p) minmax_lines \<and>
   map_option dip__MaximumAndMinimum_GetResult
     (fold (\<lambda>p s. Option.bind s (dip__MaximumAndMinimum_Filter minmax_init p)) minmax_lines
        (Some (dip__MaximumAndMinimum_SetNumberOfThreads minmax_init 2 \<lparr> mm_accArray = [] \<rparr>)))
   = Some \<lparr> acc_min = 1, acc_max = 9 \<rparr> \<and>
   dip__MaximumAndMinimum_GetResult
     (fold (MaximumAndMinimum_Filter_one_at_a_time minmax_init) minmax_lines
        (dip__MaximumAndMinimum_SetNumberOfThreads minmax_init 2 \<lparr> mm_accArray = [] \<rparr>))
   = \<lparr> acc_min = 1, acc_max = 9 \<rparr>"
proof -
  have h: "\<forall>p\<in>set minmax_lines. wf_params 2 2 p \<and> maskBuffer p = None \<and> 0 < bufferLength p"
    by (simp add: minmax_lines_def scan_line_def wf_params_def)
  have v: "dip__MaximumAndMinimum_GetResult
     (fold (MaximumAndMinimum_Filter_one_at_a_time minmax_init) minmax_lines
        (dip__MaximumAndMinimum_SetNumberOfThreads minmax_init 2 \<lparr> mm_accArray = [] \<rparr>))
   = \<lparr> acc_min = 1, acc_max = 9 \<rparr>"
    by (simp add: minmax_lines_def scan_line_def minmax_init_def MaximumAndMinimum_Filter_one_at_a_time_def
        dip__MaximumAndMinimum_SetNumberOfThreads_def dip__MaximumAndMinimum_GetResult_def
        resize_def MinMax_Push_def MinMax_add_def upt_conv_Cons)
  from unrolled_scan_equals_simple_scan[OF h, THEN conjunct2, of minmax_init
      "dip__MaximumAndMinimum_SetNumberOfThreads minmax_init 2 \<lparr> mm_accArray = [] \<rparr>"]
  show ?thesis using h v by (simp add: list_all_iff)
qed

section \<open>CenterOfMass\<close>

text \<open>Every line without a mask that has a sample runs into the undefined access.\<close>

lemma accumulate_empty:
  "Option.bind
     (fold (\<lambda>jj vars. Option.bind vars (FloatArray_add_at jj (real (pos ! jj) * x))) [0..<nD] (Some []))
     (FloatArray_add_at nD x) = None"
proof (cases nD)
  case 0
  then show ?thesis by (simp add: FloatArray_add_at_def)
next
  case (Suc n)
  have none: "fold (\<lambda>jj vars. Option.bind vars (f jj)) js None = None" for f :: "nat \<Rightarrow> real list \<Rightarrow> real list option" and js
    by (induction js) simp_all
  have "[0..<nD] = 0 # [1..<nD]"
    using Suc by (simp add: upt_conv_Cons)
  then show ?thesis
    by (simp add: FloatArray_add_at_def none)
qed

lemma unmasked_loop_undefined:
  assumes "0 < n"
  shows "fst (fold (\<lambda>ii (vars, pos).
                 (Option.bind vars (\<lambda>vars. Option.bind
                     (fold (\<lambda>jj vars. Option.bind vars (FloatArray_add_at jj (real (pos ! jj) * inb ! ii)))
                           [0..<nD] (Some vars))
                     (FloatArray_add_at nD (inb ! ii))),
                  pos[procDim := pos ! procDim + 1]))
               [0..<n] (Some [], pos0)) = None"
  using assms
proof (induction n)
  case 0
  then show ?case by simp
next
  case (Suc n)
  show ?case
  proof (cases n)
    case 0
    then show ?thesis by (simp add: accumulate_empty)
  next
    case (Suc m)
    then have "0 < n" by simp
    from Suc.IH[OF this] show ?thesis by (simp add: case_prod_beta)
  qed
qed

lemma CenterOfMass_Filter_undefined:
  assumes "maskBuffer p = None" and "0 < bufferLength p"
  shows "dip__CenterOfMass_Filter p s = None"
  using unmasked_loop_undefined[OF assms(2), where nD = "com_nD s" and inb = "inBuffer p"
      and procDim = "dimension p" and ?pos0.0 = "position p"]
  by (simp add: dip__CenterOfMass_Filter_def assms(1) Let_def case_prod_beta)

text \<open>
  \<open>GetResult\<close> by itself does what the claim says of it: on a slot of \<open>nD + 1\<close> sums
  it divides each of the first \<open>nD\<close> by the last, and returns zeros when the last is 0.
\<close>

lemma divide_loop:
  assumes "k \<le> nD" "nD < length out"
  shows "fold (\<lambda>jj out. out[jj := out ! jj / out ! nD]) [0..<k] out
       = map (\<lambda>v. v / out ! nD) (take k out) @ drop k (out :: real list)"
  using assms
proof (induction k)
  case 0
  then show ?case by simp
next
  case (Suc k)
  have t: "take (Suc k) out = take k out @ [out ! k]"
    using Suc.prems by (simp add: take_Suc_conv_app_nth)
  have d: "drop k out = out ! k # drop (Suc k) out"
    using Suc.prems by (simp add: Cons_nth_drop_Suc)
  show ?case
    using Suc by (simp add: t d nth_append list_update_append)
qed

lemma zero_loop:
  assumes "k \<le> length out"
  shows "fold (\<lambda>jj out. out[jj := 0]) [0..<k] out = replicate k 0 @ drop k (out :: real list)"
  using assms
proof (induction k)
  case 0
  then show ?case by simp
next
  case (Suc k)
  have d: "drop k out = out ! k # drop (Suc k) out"
    using Suc.prems by (simp add: Cons_nth_drop_Suc)
  show ?case
    using Suc by (simp add: d list_update_append replicate_append_same)
qed

lemma CenterOfMass_GetResult_one_slot:
  assumes "length acc = nD + 1"
  shows "dip__CenterOfMass_GetResult \<lparr> com_accArray = [acc], com_nD = nD \<rparr>
       = Some (if acc ! nD \<noteq> 0 then map (\<lambda>v. v / acc ! nD) (take nD acc) else replicate nD 0)"
  using assms by (simp add: dip__CenterOfMass_GetResult_def divide_loop zero_loop resize_def)

text \<open>
  Claim C4, at the inputs where the code departs from it. \<open>Filter\<close> declares its
  local sums as \<open>FloatArray vars;\<close>, an empty array, where the slots of the threads
  are resized to \<open>nD_ + 1\<close> zeros; the first sample that it accumulates indexes the
  empty array. On the image \<open>[0, 1]\<close>, whose mass lies at coordinate \<open>[1]\<close>, and on
  the image \<open>[0, 0]\<close> the call has no defined result, where the claim has \<open>[1]\<close> and
  \<open>[0]\<close>.
\<close>

theorem CenterOfMass_indexes_empty_array:
  "dip__CenterOfMass_Filter (scan_line 0 [0] [0, 1] None)
     (dip__CenterOfMass_SetNumberOfThreads 1 (dip__CenterOfMass_new 1)) = None \<and>
   CenterOfMass (one_thread [scan_line 0 [0] [0, 1] None])
     (scalar_image [2] (\<lambda>c. [0, 1 :: real] ! (c ! 0))) no_mask = Inr None \<and>
   CenterOfMass (one_thread [scan_line 0 [0] [0, 0] None])
     (scalar_image [2] (\<lambda>c. 0 :: real)) no_mask = Inr None"
  by (simp add: CenterOfMass_def IsForged_def IsScalar_def scalar_image_def one_thread_def
      CenterOfMass_Filter_undefined scan_line_def)

section \<open>Merging partial results\<close>

text \<open>
  Where the arithmetic is exact, the partial results of two groups of samples merge
  into the result of all samples: the minimum and maximum of the accumulator, and the
  count, which is a sum of 64-bit counters.
\<close>

lemma fold_MinMax_Push:
  "acc_min (fold MinMax_Push xs a) = Min (insert (acc_min a) (set xs)) \<and>
   acc_max (fold MinMax_Push xs a) = Max (insert (acc_max a) (set xs))"
proof (induction xs arbitrary: a)
  case Nil
  then show ?case by simp
next
  case (Cons x xs)
  have mn: "Min (insert (min (acc_min a) x) (set xs)) = Min (insert (acc_min a) (insert x (set xs)))"
    by (cases "set xs = {}") (simp_all add: ac_simps)
  have mx: "Max (insert (max (acc_max a) x) (set xs)) = Max (insert (acc_max a) (insert x (set xs)))"
    by (cases "set xs = {}") (simp_all add: ac_simps)
  show ?case
    using Cons[of "MinMax_Push x a"] by (simp add: MinMax_Push_def mn mx)
qed

lemma MinMax_merge:
  "MinMax_add (fold MinMax_Push xs a) (fold MinMax_Push ys a) = fold MinMax_Push (xs @ ys) a"
proof -
  have mn: "min (Min (insert (acc_min a) (set xs))) (Min (insert (acc_min a) (set ys)))
          = Min (insert (acc_min a) (set xs \<union> set ys))"
    using Min_Un[of "insert (acc_min a) (set xs)" "insert (acc_min a) (set ys)"] by simp
  have mx: "max (Max (insert (acc_max a) (set xs))) (Max (insert (acc_max a) (set ys)))
          = Max (insert (acc_max a) (set xs \<union> set ys))"
    using Max_Un[of "insert (acc_max a) (set xs)" "insert (acc_max a) (set ys)"] by simp
  have "acc_min (MinMax_add (fold MinMax_Push xs a) (fold MinMax_Push ys a))
          = acc_min (fold MinMax_Push (xs @ ys) a)"
    "acc_max (MinMax_add (fold MinMax_Push xs a) (fold MinMax_Push ys a))
          = acc_max (fold MinMax_Push (xs @ ys) a)"
    unfolding MinMax_add_def using mn mx
    by (simp_all add: fold_MinMax_Push del: fold_append)
  then show ?thesis by simp
qed


lemma Count_split:
  assumes "IsForged img" and "IsScalar img" and "0 < threads"
    and "\<forall>p\<in>set xs \<union> set ys. thread p < threads"
  shows "\<exists>a b. Count (\<lambda>img msk. Inr (threads, xs)) img msk = Inr a \<and>
               Count (\<lambda>img msk. Inr (threads, ys)) img msk = Inr b \<and>
               Count (\<lambda>img msk. Inr (threads, xs @ ys)) img msk = Inr (a + b)"
proof -
  have x: "Count (\<lambda>img msk. Inr (threads, xs)) img msk = Inr (of_nat (sum_list (map counted xs)))"
    using assms by (intro Count_value) auto
  have y: "Count (\<lambda>img msk. Inr (threads, ys)) img msk = Inr (of_nat (sum_list (map counted ys)))"
    using assms by (intro Count_value) auto
  have xy: "Count (\<lambda>img msk. Inr (threads, xs @ ys)) img msk
          = Inr (of_nat (sum_list (map counted (xs @ ys))))"
    using assms by (intro Count_value) auto
  show ?thesis
    using x y xy by simp
qed

text \<open>
  Claim C1, at the inputs where the code departs from it. The image has the two
  pixels \<open>(0, 0)\<close> and \<open>(0, 1)\<close> with the values \<open>0\<close> and \<open>1\<close>, one to each of two
  groups: the lines \<open>[0]\<close> at position \<open>[0, 0]\<close> and \<open>[1]\<close> at position \<open>[0, 1]\<close>. The
  sums of the groups would be \<open>[0, 0, 0]\<close> and \<open>[0, 1, 1]\<close>, and merged, as in one pass over
  both lines, \<open>[0, 1, 1]\<close>. \<open>dip__CenterOfMass::Filter\<close> builds none of them: its local
  sums are the empty \<open>FloatArray vars;\<close>, which the first sample of each group indexes,
  so neither the two groups on two threads nor the two lines on one thread have a
  defined result.
\<close>

theorem CenterOfMass_builds_no_partial_sum:
  "dip__CenterOfMass_Filter (scan_line 0 [0, 0] [0] None)
     (dip__CenterOfMass_SetNumberOfThreads 2 (dip__CenterOfMass_new 2)) = None \<and>
   dip__CenterOfMass_Filter (scan_line 1 [0, 1] [1] None)
     (dip__CenterOfMass_SetNumberOfThreads 2 (dip__CenterOfMass_new 2)) = None \<and>
   CenterOfMass (\<lambda>img msk. Inr (2, [scan_line 0 [0, 0] [0] None, scan_line 1 [0, 1] [1] None]))
     (scalar_image [1, 2] (\<lambda>c. real (c ! 1))) no_mask = Inr None \<and>
   CenterOfMass (one_thread [scan_line 0 [0, 0] [0] None, scan_line 0 [0, 1] [1] None])
     (scalar_image [1, 2] (\<lambda>c. real (c ! 1))) no_mask = Inr None"
  by (simp add: CenterOfMass_def IsForged_def IsScalar_def scalar_image_def one_thread_def
      CenterOfMass_Filter_undefined scan_line_def)

section \<open>Promotion of the samples\<close>


lemma fold_promoted:
  assumes "n \<le> length inb"
  shows "fold (\<lambda>ii. step ii (cast (inb ! ii))) [0..<n] st = fold (\<lambda>ii. step ii (map cast inb ! ii)) [0..<n] st"
  using assms by (intro fold_cong) (simp_all cong: if_cong)





















text \<open>
  The same line with the sample type \<open>dfloat\<close> and the initial value
  \<open>numeric_limits< dfloat >::lowest()\<close>.
\<close>

lemma MaximumPixel_promoted_example:
  "MaximumPixel (one_thread [promoted dfloat_of_uint8 (scan_line 0 [0] [0, 0, 0 :: uint8] None)])
     dfloat_lowest (scalar_image [3] (\<lambda>c. 0 :: uint8)) no_mask ''first'' = Inr [0]"
  by (simp add: eval_defs promoted_def dfloat_of_uint8_def dfloat_lowest_def)







end
